theory Spec2Isabelle
  imports Complex_Main
begin

section \<open>The multitrack player: class \<open>MultiTrack\<close> of \<open>multitrack.ts\<close>\<close>

text \<open>
  The source is the text of \<open>multitrack.ts\<close>, which follows the rollup configuration in
  \<open>src/rollup.config.js\<close>.

  The class \<open>MultiTrack\<close> keeps three parallel arrays (\<open>tracks\<close>, \<open>audios\<close>,
  \<open>durations\<close>), the shared playhead \<open>currentTime\<close>, the timeline length
  \<open>maxDuration\<close> and the handle of the pending animation frame.  The model keeps
  these fields under their own names and passes the object explicitly.

  Numbers: a JavaScript \<open>number\<close> is modelled as a \<open>real\<close>, that is a finite value
  that is not \<open>NaN\<close>, with exact arithmetic.  The one literal \<open>Infinity\<close> of the source
  (\<open>track.endCue || Infinity\<close>) has a type of its own below.  Where the source would go
  on with \<open>undefined\<close> or \<open>NaN\<close> (an array read past the end that does not throw), the
  model either writes the JavaScript result out (a comparison with \<open>undefined\<close> is
  false) or stops with \<open>Unmodelled\<close>.
\<close>

subsection \<open>Data\<close>

datatype TrackId = IdString string | IdNumber real

text \<open>
  \<open>TrackOptions\<close>: the fields the synchronisation code reads.  \<open>media\<close> says whether
  \<open>options.media\<close> is set, \<open>options_duration\<close> is \<open>options.duration\<close> when it is a
  number.  An absent optional number is \<open>None\<close>; \<open>draggable\<close> absent is \<open>False\<close>.
\<close>

record TrackOptions =
  track_id :: TrackId
  url :: "string option"
  media :: bool
  draggable :: bool
  startPosition :: real
  startCue :: "real option"
  endCue :: "real option"
  options_duration :: "real option"

record MultitrackOptions =
  minPxPerSec :: "real option"
  rightButtonDrag :: bool
  dragBounds :: bool

text \<open>
  The playback resource (\<open>HTMLAudioElement | WebAudioPlayer\<close>), by the members the class
  uses.  \<open>calls\<close> is not a field of the source: it records every \<open>play()\<close> and
  \<open>pause()\<close> the element receives, oldest first, so that a redundant call can be seen.
\<close>

datatype media_call = PlayCall | PauseCall

record Audio =
  src :: string
  audio_currentTime :: real
  paused :: bool
  muted :: bool
  playbackRate :: real
  duration :: real
  calls :: "media_call list"

text \<open>
  What the object does to its collaborators, oldest first: the events it emits and the
  calls into the rendering object.  \<open>UpdateCursor t m c\<close> stands for
  \<open>rendering.updateCursor(t / m, c)\<close>: the quotient is left unevaluated, since \<open>m\<close> can
  be \<open>0\<close>.
\<close>

datatype effect =
    EmitCanplay
  | EmitStartPositionChange TrackId real
  | UpdateCursor real real bool
  | SetMainWidth "real list" real
  | SetContainerOffsets
  | RenderingDestroy

text \<open>
  \<open>rafQueue\<close> and \<open>rafNext\<close> are the browser's side of \<open>requestAnimationFrame\<close>: the
  handles of the callbacks that are scheduled and not yet run or cancelled, and the next
  handle to give out.  Every callback the class schedules is \<open>onFrame\<close>.
\<close>

record MultiTrack =
  tracks :: "TrackOptions list"
  options :: MultitrackOptions
  audios :: "Audio list"
  durations :: "real list"
  currentTime :: real
  maxDuration :: real
  frameRequest :: "nat option"
  effects :: "effect list"
  rafQueue :: "nat list"
  rafNext :: nat

datatype error = TypeError | RateError

text \<open>
  The outcome of a method: it returns, or it throws and leaves the object as it was at
  the throw, or the source goes on with a value the model does not have.
\<close>

datatype 'a outcome = Ok 'a | Throw error 'a | Unmodelled

subsection \<open>The playback resource\<close>

text \<open>
  \<open>audio.play()\<close> and \<open>audio.pause()\<close> of the media element contract: \<open>paused\<close>
  becomes false, respectively true, at once.
\<close>

definition play_audio :: "Audio \<Rightarrow> Audio" where
  "play_audio a = a\<lparr>paused := False, calls := calls a @ [PlayCall]\<rparr>"

definition pause_audio :: "Audio \<Rightarrow> Audio" where
  "pause_audio a = a\<lparr>paused := True, calls := calls a @ [PauseCall]\<rparr>"

subsection \<open>Cue bounds\<close>

datatype bound = Finite real | Infinity

text \<open>\<open>track.startCue || 0\<close>: \<open>undefined\<close> and \<open>0\<close> are falsy, both give \<open>0\<close>.\<close>

definition startCue_or_0 :: "real option \<Rightarrow> real" where
  "startCue_or_0 c = (case c of None \<Rightarrow> 0 | Some v \<Rightarrow> if v = 0 then 0 else v)"

text \<open>\<open>track.endCue || Infinity\<close>: \<open>undefined\<close> and \<open>0\<close> are falsy, both give \<open>Infinity\<close>.\<close>

definition endCue_or_Infinity :: "real option \<Rightarrow> bound" where
  "endCue_or_Infinity c = (case c of None \<Rightarrow> Infinity | Some v \<Rightarrow> if v = 0 then Infinity else Finite v)"

fun greater_bound :: "real \<Rightarrow> bound \<Rightarrow> bool" where
  "greater_bound x (Finite b) = (b < x)"
| "greater_bound x Infinity = False"

subsection \<open>\<open>isPlaying\<close> and \<open>updatePosition\<close>\<close>

definition isPlaying :: "MultiTrack \<Rightarrow> bool" where
  "isPlaying s = list_ex (\<lambda>audio. \<not> paused audio) (audios s)"

definition precisionSeconds :: real where
  "precisionSeconds = 0.3"

text \<open>
  \<open>durations[index]\<close> past the end is \<open>undefined\<close>, and \<open>newTime > undefined\<close> is false.
\<close>

definition beyond_duration :: "real \<Rightarrow> real list \<Rightarrow> nat \<Rightarrow> bool" where
  "beyond_duration newTime ds index = (index < length ds \<and> ds ! index < newTime)"

text \<open>The body of the \<open>forEach\<close> of \<open>updatePosition\<close>, for one track and its audio.\<close>

definition isMuted :: "TrackOptions \<Rightarrow> real \<Rightarrow> bool" where
  "isMuted track newTime =
     (newTime < startCue_or_0 (startCue track) \<or> greater_bound newTime (endCue_or_Infinity (endCue track)))"

definition updateAudio :: "bool \<Rightarrow> real \<Rightarrow> real list \<Rightarrow> nat \<Rightarrow> TrackOptions \<Rightarrow> Audio \<Rightarrow> Audio" where
  "updateAudio isPaused time ds index track audio =
     (let newTime = time - startPosition track;
          audio1 = (if \<bar>audio_currentTime audio - newTime\<bar> > precisionSeconds
                    then audio\<lparr>audio_currentTime := max 0 newTime\<rparr> else audio);
          audio2 = (if isPaused \<or> newTime < 0 \<or> beyond_duration newTime ds index
                    then (if \<not> paused audio1 then pause_audio audio1 else audio1)
                    else if \<not> isPaused
                    then (if paused audio1 then play_audio audio1 else audio1)
                    else audio1)
      in if isMuted track newTime \<noteq> muted audio2
         then audio2\<lparr>muted := isMuted track newTime\<rparr> else audio2)"

text \<open>
  The \<open>forEach\<close> over \<open>this.tracks\<close>, given as the list of (index, track) pairs that
  are left.  \<open>this.audios[index]\<close> past the end is \<open>undefined\<close> and reading its
  \<open>currentTime\<close> throws; the audios updated so far stay updated.
\<close>

fun updateTracks :: "bool \<Rightarrow> real \<Rightarrow> real list \<Rightarrow> (nat \<times> TrackOptions) list \<Rightarrow> Audio list \<Rightarrow> Audio list outcome" where
  "updateTracks isPaused time ds [] as = Ok as"
| "updateTracks isPaused time ds ((index, track) # rest) as =
     (if index < length as
      then updateTracks isPaused time ds rest (as[index := updateAudio isPaused time ds index track (as ! index)])
      else Throw TypeError as)"

definition updatePosition :: "real \<Rightarrow> bool \<Rightarrow> MultiTrack \<Rightarrow> MultiTrack outcome" where
  "updatePosition time autoCenter s =
     (let isPaused = \<not> isPlaying s;
          s1 = (if time \<noteq> currentTime s
                then s\<lparr>currentTime := time, effects := effects s @ [UpdateCursor time (maxDuration s) autoCenter]\<rparr>
                else s)
      in case updateTracks isPaused time (durations s1) (enumerate 0 (tracks s1)) (audios s1) of
           Ok as \<Rightarrow> Ok (s1\<lparr>audios := as\<rparr>)
         | Throw e as \<Rightarrow> Throw e (s1\<lparr>audios := as\<rparr>)
         | Unmodelled \<Rightarrow> Unmodelled)"

subsection \<open>Sequencing\<close>

definition and_then :: "'a outcome \<Rightarrow> ('a \<Rightarrow> 'a outcome) \<Rightarrow> 'a outcome" where
  "and_then r f = (case r of Ok s \<Rightarrow> f s | Throw e s \<Rightarrow> Throw e s | Unmodelled \<Rightarrow> Unmodelled)"

subsection \<open>The placeholder track and \<open>initDurations\<close>\<close>

text \<open>
  \<open>webkitUrl\<close> is a data URL of a silent MP3, some 20 kB of base64 in the source.  The
  class only compares it for equality, so the model keeps its head and leaves the
  payload out.
\<close>

definition webkitUrl :: string where
  "webkitUrl = ''data:audio/mpeg;base64,SUQzBABAAAAAQwAAAAwBIAULaBs3cUNPTU0AAAAtAAAAAAAAADEyOCBrYnBz''"

definition PLACEHOLDER_TRACK :: TrackOptions where
  "PLACEHOLDER_TRACK =
     \<lparr>track_id = IdString ''placeholder'', url = Some webkitUrl, media = False, draggable = False,
      startPosition = 0, startCue = None, endCue = None, options_duration = None\<rparr>"

text \<open>\<open>Array.prototype.findIndex\<close>; \<open>None\<close> is the source's \<open>-1\<close>.\<close>

fun findIndex :: "('a \<Rightarrow> bool) \<Rightarrow> 'a list \<Rightarrow> nat option" where
  "findIndex P [] = None"
| "findIndex P (x # xs) = (if P x then Some 0 else map_option Suc (findIndex P xs))"

text \<open>
  The \<open>reduce\<close> of \<open>initDurations\<close>, from the left and starting at \<open>0\<close>; \<open>maxStep\<close>
  is its callback \<open>(max, track, index) => Math.max(max, track.startPosition + durations[index])\<close>.
\<close>

definition maxStep :: "real list \<Rightarrow> nat \<times> TrackOptions \<Rightarrow> real \<Rightarrow> real" where
  "maxStep ds = (\<lambda>(index, track) mx. max mx (startPosition track + ds ! index))"

definition reduceMax :: "TrackOptions list \<Rightarrow> real list \<Rightarrow> real" where
  "reduceMax ts ds = fold (maxStep ds) (enumerate 0 ts) 0"

text \<open>
  \<open>initDurations(durations)\<close>.  With fewer durations than tracks the sum in the
  \<open>reduce\<close> is \<open>NaN\<close>, and writing the placeholder's duration past the end of
  \<open>durations\<close> grows the array: both are \<open>Unmodelled\<close>.  \<open>this.durations\<close> and the argument are the
  same array, so \<open>setMainWidth\<close> sees the placeholder's new duration.
\<close>

definition initDurations :: "real list \<Rightarrow> MultiTrack \<Rightarrow> MultiTrack outcome" where
  "initDurations ds s =
     (if length ds < length (tracks s) then Unmodelled
      else
        let md = reduceMax (tracks s) ds;
            s1 = s\<lparr>durations := ds, maxDuration := md\<rparr>
        in case findIndex (\<lambda>a. src a = the (url PLACEHOLDER_TRACK)) (audios s1) of
             None \<Rightarrow> Ok (s1\<lparr>effects := effects s1 @ [SetMainWidth ds md]\<rparr>)
           | Some p \<Rightarrow>
               if p < length ds
               then Ok (s1\<lparr>audios := (audios s1)[p := (audios s1 ! p)\<lparr>duration := md\<rparr>],
                           durations := ds[p := md],
                           effects := effects s1 @ [SetMainWidth (ds[p := md]) md]\<rparr>)
               else Unmodelled)"

subsection \<open>Dragging and the programmatic setter\<close>

text \<open>
  The five statements that \<open>onDrag\<close> and \<open>setTrackStartPosition\<close> both run once the
  new start position is accepted.
\<close>

definition commitStartPosition :: "nat \<Rightarrow> real \<Rightarrow> MultiTrack \<Rightarrow> MultiTrack outcome" where
  "commitStartPosition index newStartPosition s =
     (let track = tracks s ! index;
          s1 = s\<lparr>tracks := (tracks s)[index := track\<lparr>startPosition := newStartPosition\<rparr>]\<rparr>
      in and_then (initDurations (durations s1) s1) (\<lambda>s2.
         and_then (updatePosition (currentTime s2) False (s2\<lparr>effects := effects s2 @ [SetContainerOffsets]\<rparr>)) (\<lambda>s3.
         Ok (s3\<lparr>effects := effects s3 @ [EmitStartPositionChange (track_id track) newStartPosition]\<rparr>))))"

text \<open>
  \<open>this.tracks[index]\<close> past the end is \<open>undefined\<close> and reading \<open>draggable\<close> throws.
  \<open>this.durations[index]\<close> past the end makes \<open>maxStart\<close> \<open>NaN\<close>, so the test fails.
\<close>

definition acceptStart :: "nat \<Rightarrow> real \<Rightarrow> MultiTrack \<Rightarrow> bool" where
  "acceptStart index newStartPosition s =
     (index < length (durations s) \<and>
      (let minStart = (if dragBounds (options s) then 0 else - (durations s ! index) - 1);
           maxStart = maxDuration s - durations s ! index
       in newStartPosition \<ge> minStart \<and> newStartPosition \<le> maxStart))"

definition onDrag :: "nat \<Rightarrow> real \<Rightarrow> MultiTrack \<Rightarrow> MultiTrack outcome" where
  "onDrag index delta s =
     (if \<not> index < length (tracks s) then Throw TypeError s
      else let track = tracks s ! index in
        if \<not> draggable track then Ok s
        else let newStartPosition = startPosition track + delta * maxDuration s in
          if acceptStart index newStartPosition s
          then commitStartPosition index newStartPosition s
          else Ok s)"

definition setTrackStartPosition :: "nat \<Rightarrow> real \<Rightarrow> MultiTrack \<Rightarrow> MultiTrack outcome" where
  "setTrackStartPosition index val s =
     (if \<not> index < length (tracks s) then Throw TypeError s
      else let track = tracks s ! index in
        if \<not> draggable track then Ok s
        else let newStartPosition = val in
          if acceptStart index newStartPosition s
          then commitStartPosition index newStartPosition s
          else Ok s)"

subsection \<open>The synchronisation clock\<close>

text \<open>
  The \<open>reduce\<close> of \<open>onFrame\<close> over the (index, audio) pairs that are left; \<open>None\<close> when
  \<open>this.tracks[index]\<close> is \<open>undefined\<close> for an audio that is not paused, which throws.
\<close>

fun framePosition :: "TrackOptions list \<Rightarrow> (nat \<times> Audio) list \<Rightarrow> real \<Rightarrow> real option" where
  "framePosition ts [] pos = Some pos"
| "framePosition ts ((index, audio) # rest) pos =
     (if \<not> paused audio
      then (if index < length ts
            then framePosition ts rest (max pos (audio_currentTime audio + startPosition (ts ! index)))
            else None)
      else framePosition ts rest pos)"

text \<open>\<open>requestAnimationFrame(onFrame)\<close>, its result stored in \<open>this.frameRequest\<close>.\<close>

definition requestFrame :: "MultiTrack \<Rightarrow> MultiTrack" where
  "requestFrame s =
     s\<lparr>frameRequest := Some (rafNext s), rafQueue := rafQueue s @ [rafNext s], rafNext := Suc (rafNext s)\<rparr>"

definition cancelAnimationFrame :: "nat \<Rightarrow> MultiTrack \<Rightarrow> MultiTrack" where
  "cancelAnimationFrame handle s = s\<lparr>rafQueue := removeAll handle (rafQueue s)\<rparr>"

definition onFrame :: "MultiTrack \<Rightarrow> MultiTrack outcome" where
  "onFrame s =
     (case framePosition (tracks s) (enumerate 0 (audios s)) (currentTime s) of
        None \<Rightarrow> Throw TypeError s
      | Some position \<Rightarrow>
          and_then (if position > currentTime s then updatePosition position True s else Ok s)
            (\<lambda>s1. Ok (requestFrame s1)))"

definition startSync :: "MultiTrack \<Rightarrow> MultiTrack outcome" where
  "startSync s = onFrame s"

text \<open>
  The browser runs the callback of a pending handle, which leaves the queue; a handle
  that is not pending (it ran, or was cancelled) runs nothing.
\<close>

definition runFrame :: "nat \<Rightarrow> MultiTrack \<Rightarrow> MultiTrack outcome" where
  "runFrame handle s =
     (if handle \<in> set (rafQueue s) then onFrame (s\<lparr>rafQueue := removeAll handle (rafQueue s)\<rparr>) else Ok s)"

subsection \<open>Playing, pausing, seeking\<close>

definition truthy_url :: "TrackOptions \<Rightarrow> bool" where
  "truthy_url track = (case url track of None \<Rightarrow> False | Some u \<Rightarrow> u \<noteq> [])"

text \<open>\<open>Math.min(...xs)\<close>, which is \<open>Infinity\<close> for no argument.\<close>

fun math_min :: "real list \<Rightarrow> bound" where
  "math_min [] = Infinity"
| "math_min (x # xs) = (case math_min xs of Infinity \<Rightarrow> Finite x | Finite m \<Rightarrow> Finite (min x m))"

text \<open>
  \<open>findCurrentTracks\<close>; the indexes are integers, since \<open>findIndex\<close> may push \<open>-1\<close>.
\<close>

definition findCurrentTracks :: "MultiTrack \<Rightarrow> int list" where
  "findCurrentTracks s =
     (let indexes =
            map (\<lambda>(index, track). int index)
              (filter (\<lambda>(index, track).
                   (truthy_url track \<or> media track) \<and>
                   currentTime s \<ge> startPosition track \<and>
                   index < length (durations s) \<and>
                   currentTime s < startPosition track + durations s ! index)
                 (enumerate 0 (tracks s)))
      in if indexes = []
         then (let minStartTime = math_min (map startPosition (filter truthy_url (tracks s)))
               in [case findIndex (\<lambda>track. Finite (startPosition track) = minStartTime) (tracks s) of
                     None \<Rightarrow> - 1 | Some i \<Rightarrow> int i])
         else indexes)"

text \<open>\<open>this.audios[index]?.play()\<close>: nothing happens where there is no such audio.\<close>

definition playAt :: "int \<Rightarrow> Audio list \<Rightarrow> Audio list" where
  "playAt index as =
     (if 0 \<le> index \<and> nat index < length as then as[nat index := play_audio (as ! nat index)] else as)"

text \<open>\<open>play\<close>, but for resuming a suspended \<open>audioContext\<close>, which the model does not hold.\<close>

definition play :: "MultiTrack \<Rightarrow> MultiTrack outcome" where
  "play s = and_then (startSync s) (\<lambda>s1. Ok (s1\<lparr>audios := fold playAt (findCurrentTracks s1) (audios s1)\<rparr>))"

definition pause :: "MultiTrack \<Rightarrow> MultiTrack outcome" where
  "pause s = Ok (s\<lparr>audios := map pause_audio (audios s)\<rparr>)"

definition getAudioRate :: "MultiTrack \<Rightarrow> real" where
  "getAudioRate s = (if length (audios s) > 0 then playbackRate (audios s ! 0) else 1)"

definition setAudioRate :: "real \<Rightarrow> MultiTrack \<Rightarrow> MultiTrack outcome" where
  "setAudioRate rate s =
     (if rate < 0.25 \<or> rate > 5.0 then Throw RateError s
      else Ok (s\<lparr>audios := map (\<lambda>audio. audio\<lparr>playbackRate := rate\<rparr>) (audios s)\<rparr>))"


definition seekTo :: "real \<Rightarrow> MultiTrack \<Rightarrow> MultiTrack outcome" where
  "seekTo position s =
     (let wasPlaying = isPlaying s
      in and_then (updatePosition (position * maxDuration s) False s)
           (\<lambda>s1. if wasPlaying then play s1 else Ok s1))"

definition setTime :: "real \<Rightarrow> MultiTrack \<Rightarrow> MultiTrack outcome" where
  "setTime time s =
     (let wasPlaying = isPlaying s
      in and_then (updatePosition time False s)
           (\<lambda>s1. if wasPlaying then play s1 else Ok s1))"

definition zoom :: "real \<Rightarrow> MultiTrack \<Rightarrow> MultiTrack outcome" where
  "zoom pxPerSec s =
     Ok (s\<lparr>options := (options s)\<lparr>minPxPerSec := Some pxPerSec\<rparr>,
           effects := effects s @ [SetMainWidth (durations s) (maxDuration s), SetContainerOffsets]\<rparr>)"

subsection \<open>Construction, loading, replacing a track, destroying\<close>

text \<open>
  \<open>initAudio\<close>: \<open>element\<close> is the element the promise resolves with (the one of
  \<open>options.media\<close>, or a new one), as the browser has loaded it; the method sets its
  \<open>src\<close> when the track has a URL, and the element reports the URL it was given.
\<close>

definition initAudio :: "TrackOptions \<Rightarrow> Audio \<Rightarrow> Audio" where
  "initAudio track element = (if truthy_url track then element\<lparr>src := the (url track)\<rparr> else element)"

text \<open>The constructor, up to the point where it waits for the audios.\<close>

definition create :: "TrackOptions list \<Rightarrow> MultitrackOptions \<Rightarrow> MultiTrack" where
  "create ts opts =
     \<lparr>tracks = map (\<lambda>track. track\<lparr>startPosition := (if startPosition track = 0 then 0 else startPosition track)\<rparr>)
                 (ts @ [PLACEHOLDER_TRACK]),
      options = opts, audios = [], durations = [], currentTime = 0, maxDuration = 0,
      frameRequest = None, effects = [], rafQueue = [], rafNext = 1\<rparr>"

text \<open>
  \<open>initAllAudios\<close> is started by the constructor, on the tracks as they are then, with
  one element for each: it gives the audios its promise resolves with.  \<open>loaded\<close> is
  the callback of \<open>initAllAudios().then\<close> in the constructor, with those audios; it may
  run after other calls.
\<close>

definition initAllAudios :: "TrackOptions list \<Rightarrow> Audio list \<Rightarrow> Audio list" where
  "initAllAudios ts elements = map2 initAudio ts elements"

definition loaded :: "Audio list \<Rightarrow> MultiTrack \<Rightarrow> MultiTrack outcome" where
  "loaded as s =
     (let s1 = s\<lparr>audios := as\<rparr>;
          ds = map (\<lambda>a. if src a \<noteq> [] then duration a else 0) (audios s1)
      in and_then (initDurations ds s1) (\<lambda>s2. Ok (s2\<lparr>effects := effects s2 @ [EmitCanplay]\<rparr>)))"

text \<open>
  \<open>addTrack\<close> replaces the track of the same id at once and starts loading its audio;
  \<open>addTrack_then\<close> is the callback that runs when the audio has loaded, with the
  \<open>index\<close> and \<open>track\<close> of the call.  Writing \<open>audios[index]\<close> or \<open>durations[index]\<close>
  past the end grows the array: \<open>Unmodelled\<close>.

  \<open>loadedDuration\<close> is
  \<open>typeof track.options?.duration === 'number' ? track.options.duration : audio.duration\<close>.
  The callback reads \<open>audio.duration\<close> whether or not the audio has a source, and an
  element without a source has the duration \<open>NaN\<close>: that is \<open>None\<close> here, and
  \<open>Unmodelled\<close> in the callback.
\<close>

definition loadedDuration :: "TrackOptions \<Rightarrow> Audio \<Rightarrow> real option" where
  "loadedDuration track audio =
     (case options_duration track of
        Some d \<Rightarrow> Some d
      | None \<Rightarrow> if src audio = [] then None else Some (duration audio))"

definition addTrack :: "TrackOptions \<Rightarrow> MultiTrack \<Rightarrow> MultiTrack" where
  "addTrack track s =
     (case findIndex (\<lambda>t. track_id t = track_id track) (tracks s) of
        None \<Rightarrow> s
      | Some index \<Rightarrow> s\<lparr>tracks := (tracks s)[index := track]\<rparr>)"

definition addTrack_then :: "nat \<Rightarrow> TrackOptions \<Rightarrow> Audio \<Rightarrow> MultiTrack \<Rightarrow> MultiTrack outcome" where
  "addTrack_then index track audio s =
     (if \<not> (index < length (audios s) \<and> index < length (durations s)) then Unmodelled
      else
        case loadedDuration track audio of
          None \<Rightarrow> Unmodelled
        | Some d \<Rightarrow>
            let s1 = s\<lparr>audios := (audios s)[index := audio], durations := (durations s)[index := d]\<rparr>
            in and_then (initDurations (durations s1) s1)
                 (\<lambda>s2. Ok (s2\<lparr>effects := effects s2 @ [EmitCanplay]\<rparr>)))"

text \<open>\<open>if (this.frameRequest)\<close>: \<open>null\<close> and \<open>0\<close> are falsy.\<close>

definition destroy :: "MultiTrack \<Rightarrow> MultiTrack outcome" where
  "destroy s =
     (let s1 = (case frameRequest s of
                  None \<Rightarrow> s
                | Some handle \<Rightarrow> if handle \<noteq> 0 then cancelAnimationFrame handle s else s)
      in Ok (s1\<lparr>effects := effects s1 @ [RenderingDestroy],
                audios := map (\<lambda>audio. (pause_audio audio)\<lparr>src := []\<rparr>) (audios s1)\<rparr>))"

subsection \<open>Runs of operations\<close>

text \<open>
  \<open>setTrackVolume\<close> only calls into the envelope or the wavesurfer of the track, which
  the model does not hold; so do \<open>setSinkId\<close>, \<open>getEnvelopePoints\<close> and
  \<open>setEnvelopePoints\<close>.
\<close>

definition setTrackVolume :: "nat \<Rightarrow> real \<Rightarrow> MultiTrack \<Rightarrow> MultiTrack outcome" where
  "setTrackVolume index volume s = Ok s"

text \<open>
  What can happen to the object: a call of a public method, or one of the callbacks it
  has registered (the load of the audios, with the audios \<open>initAllAudios\<close> resolved with;
  the load of a replaced track's audio, with the index and the track of the call and the
  element as loaded; a drag; an animation frame), or the elements playing on by
  themselves (\<open>Playback\<close> gives the audios as they are afterwards).
\<close>

datatype op =
    Play | Pause | SetTime real | SeekTo real | Zoom real | SetAudioRate real
  | AddTrack TrackOptions | SetTrackVolume nat real | SetTrackStartPosition nat real | Destroy
  | Loaded "Audio list" | AddTrackLoaded nat TrackOptions Audio | Drag nat real | Frame nat
  | Playback "Audio list"

fun exec :: "op \<Rightarrow> MultiTrack \<Rightarrow> MultiTrack outcome" where
  "exec Play s = play s"
| "exec Pause s = pause s"
| "exec (SetTime time) s = setTime time s"
| "exec (SeekTo position) s = seekTo position s"
| "exec (Zoom pxPerSec) s = zoom pxPerSec s"
| "exec (SetAudioRate rate) s = setAudioRate rate s"
| "exec (AddTrack track) s = Ok (addTrack track s)"
| "exec (SetTrackVolume index volume) s = setTrackVolume index volume s"
| "exec (SetTrackStartPosition index val) s = setTrackStartPosition index val s"
| "exec Destroy s = destroy s"
| "exec (Loaded as) s = loaded as s"
| "exec (AddTrackLoaded index track loadedElement) s = addTrack_then index track (initAudio track loadedElement) s"
| "exec (Drag index delta) s = onDrag index delta s"
| "exec (Frame handle) s = runFrame handle s"
| "exec (Playback as) s = Ok (s\<lparr>audios := as\<rparr>)"

text \<open>
  A run: an exception ends the method that threw it, not the object, and the next
  operation finds the object as the throw left it.  \<open>None\<close>: the run has left the model.
\<close>

fun run :: "op list \<Rightarrow> MultiTrack \<Rightarrow> MultiTrack option" where
  "run [] s = Some s"
| "run (x # xs) s =
     (case exec x s of Ok s' \<Rightarrow> run xs s' | Throw e s' \<Rightarrow> run xs s' | Unmodelled \<Rightarrow> None)"




text \<open>
  \<open>between\<close>: the operations that change no track, duration or source: playing, pausing,
  seeking, zooming, the rate, the volume, and a tick of the clock.
\<close>

fun between :: "op \<Rightarrow> bool" where
  "between Play = True"
| "between Pause = True"
| "between (SetTime time) = True"
| "between (SeekTo position) = True"
| "between (Zoom pxPerSec) = True"
| "between (SetAudioRate rate) = True"
| "between (SetTrackVolume index volume) = True"
| "between (Frame handle) = True"
| "between x = False"

text \<open>\<open>leaves r s\<close>: the method returned or threw, and left the object \<open>s\<close>.\<close>

definition leaves :: "'a outcome \<Rightarrow> 'a \<Rightarrow> bool" where
  "leaves r s \<longleftrightarrow> r = Ok s \<or> (\<exists>e. r = Throw e s)"


text \<open>
  The playhead after each of a run of ticks.  Between two ticks the elements play on by
  themselves: before each tick the audios are replaced by the next list of \<open>envs\<close>,
  which may be any list.
\<close>

fun positions :: "Audio list list \<Rightarrow> MultiTrack \<Rightarrow> real list" where
  "positions [] s = []"
| "positions (as # envs) s =
     (case onFrame (s\<lparr>audios := as\<rparr>) of
        Ok s' \<Rightarrow> currentTime s' # positions envs s'
      | Throw e s' \<Rightarrow> currentTime s' # positions envs s'
      | Unmodelled \<Rightarrow> [])"

subsection \<open>The specification's words\<close>

text \<open>
  \<open>maxOverTracks s p\<close> is the specification's
  \<open>max over tracks of (startPosition + duration)\<close>, over the tracks other than the one at
  index \<open>p\<close>, which is where the class keeps its internal placeholder; the specification
  does not count the placeholder among the tracks.  It is \<open>0\<close> when no track ends after
  \<open>0\<close>, as the \<open>reduce\<close> of the source starts at \<open>0\<close>.
\<close>

definition endsOfOthers :: "MultiTrack \<Rightarrow> nat \<Rightarrow> real list" where
  "endsOfOthers s p =
     map (\<lambda>i. startPosition (tracks s ! i) + durations s ! i) (filter (\<lambda>i. i \<noteq> p) [0..<length (tracks s)])"

definition maxOverTracks :: "MultiTrack \<Rightarrow> nat \<Rightarrow> real" where
  "maxOverTracks s p = Max (set (0 # endsOfOthers s p))"

text \<open>
  \<open>callerTracksMax\<close>: the same with the placeholder last, where the constructor puts it:
  the maximum over the tracks the caller has given.
\<close>

definition callerTracksMax :: "MultiTrack \<Rightarrow> real" where
  "callerTracksMax s = maxOverTracks s (length (tracks s) - 1)"

text \<open>
  \<open>placeholderAt s p\<close>: the audio that \<open>initDurations\<close> takes for the placeholder's is at
  index \<open>p\<close>, and the track there starts at \<open>0\<close>, as \<open>PLACEHOLDER_TRACK\<close> does.
\<close>

definition placeholderAt :: "MultiTrack \<Rightarrow> nat \<Rightarrow> bool" where
  "placeholderAt s p \<longleftrightarrow>
     findIndex (\<lambda>a. src a = webkitUrl) (audios s) = Some p \<and> p < length (tracks s) \<and>
     startPosition (tracks s ! p) = 0"

text \<open>
  \<open>settled s p\<close>: the state the initial load leaves and every later recomputation
  keeps.  The three arrays have one length, the placeholder is at \<open>p\<close>, it cannot be
  dragged, and its duration is \<open>maxDuration\<close>.
\<close>

definition settled :: "MultiTrack \<Rightarrow> nat \<Rightarrow> bool" where
  "settled s p \<longleftrightarrow>
     length (audios s) = length (tracks s) \<and> length (durations s) = length (tracks s) \<and>
     placeholderAt s p \<and> \<not> draggable (tracks s ! p) \<and> durations s ! p = maxDuration s"

text \<open>
  \<open>recomputed d s p\<close>: what a recomputation leaves, \<open>d\<close> being the duration the
  placeholder had before it.  \<open>maxDuration\<close> is the greater of \<open>d\<close> and the maximum over
  the other tracks, it is not negative, and the state is settled.
\<close>

definition recomputed :: "real \<Rightarrow> MultiTrack \<Rightarrow> nat \<Rightarrow> bool" where
  "recomputed d s p \<longleftrightarrow>
     maxDuration s = max d (maxOverTracks s p) \<and> 0 \<le> maxDuration s \<and> settled s p"

text \<open>
  \<open>candidate\<close> is the specification's
  \<open>max(globalPosition, max over unpaused resources of (resource.currentTime + track.startPosition))\<close>.
\<close>

definition candidate :: "MultiTrack \<Rightarrow> real" where
  "candidate s =
     Max (set (currentTime s #
               map (\<lambda>(audio, track). audio_currentTime audio + startPosition track)
                 (filter (\<lambda>(audio, track). \<not> paused audio) (zip (audios s) (tracks s)))))"

text \<open>
  The specification's cue rule, \<open>localTime < (startCue ?? 0) || localTime > (endCue ?? +infinity)\<close>,
  where only an absent cue takes the default, and its range rule
  \<open>0 <= localTime < duration\<close>.
\<close>

definition mutedBySpec :: "TrackOptions \<Rightarrow> real \<Rightarrow> bool" where
  "mutedBySpec track localTime \<longleftrightarrow>
     localTime < (case startCue track of None \<Rightarrow> 0 | Some c \<Rightarrow> c) \<or>
     (case endCue track of None \<Rightarrow> False | Some c \<Rightarrow> c < localTime)"

definition inRangeBySpec :: "real \<Rightarrow> real \<Rightarrow> bool" where
  "inRangeBySpec localTime d \<longleftrightarrow> 0 \<le> localTime \<and> localTime < d"

subsection \<open>A small engine\<close>

text \<open>
  Two tracks as in the scenario of the specification: \<open>A\<close> starts at \<open>0\<close>, \<open>B\<close> at
  \<open>5\<close>, both last ten seconds; \<open>A\<close> is draggable and has the cues \<open>2\<close> and \<open>8\<close>.
\<close>

definition trackA :: TrackOptions where
  "trackA = \<lparr>track_id = IdString ''A'', url = Some ''a.mp3'', media = False, draggable = True,
     startPosition = 0, startCue = Some 2, endCue = Some 8, options_duration = None\<rparr>"

definition trackB :: TrackOptions where
  "trackB = \<lparr>track_id = IdString ''B'', url = Some ''b.mp3'', media = False, draggable = False,
     startPosition = 5, startCue = None, endCue = None, options_duration = None\<rparr>"

definition element :: "real \<Rightarrow> Audio" where
  "element d = \<lparr>src = [], audio_currentTime = 0, paused = True, muted = False, playbackRate = 1,
     duration = d, calls = []\<rparr>"

definition demoOptions :: MultitrackOptions where
  "demoOptions = \<lparr>minPxPerSec = None, rightButtonDrag = False, dragBounds = True\<rparr>"

definition demo :: MultiTrack where
  "demo =
     \<lparr>tracks = [trackA, trackB, PLACEHOLDER_TRACK], options = demoOptions,
      audios = [(element 10)\<lparr>src := ''a.mp3''\<rparr>, (element 10)\<lparr>src := ''b.mp3''\<rparr>,
                (element 15)\<lparr>src := webkitUrl\<rparr>],
      durations = [10, 10, 15], currentTime = 0, maxDuration = 15, frameRequest = None,
      effects = [SetMainWidth [10, 10, 15] 15, EmitCanplay], rafQueue = [], rafNext = 1\<rparr>"

text \<open>The small engine while \<open>B\<close> plays, three seconds into its audio.\<close>

definition playingB :: MultiTrack where
  "playingB = demo\<lparr>audios := [(element 10)\<lparr>src := ''a.mp3''\<rparr>,
                               (element 10)\<lparr>src := ''b.mp3'', audio_currentTime := 3, paused := False\<rparr>,
                               (element 15)\<lparr>src := webkitUrl\<rparr>]\<rparr>"

text \<open>
  A second engine for the recomputations: one track \<open>A\<close> that starts at \<open>5\<close>, and a
  track that takes the placeholder's id.  \<open>demoLoad\<close> and \<open>soloLoad\<close> are the loads of the
  audios of the two engines, \<open>solo\<close> is the second engine after its load and
  \<open>setTrackStartPosition(0, 2)\<close>.
\<close>

definition lateA :: TrackOptions where
  "lateA = trackA\<lparr>startPosition := 5\<rparr>"


definition demoLoad :: op where
  "demoLoad = Loaded (initAllAudios (tracks (create [trackA, trackB] demoOptions)) [element 10, element 10, element 0])"

definition soloLoad :: op where
  "soloLoad = Loaded (initAllAudios (tracks (create [lateA] demoOptions)) [element 10, element 0])"

definition solo :: MultiTrack where
  "solo =
     \<lparr>tracks = [trackA\<lparr>startPosition := 2\<rparr>, PLACEHOLDER_TRACK], options = demoOptions,
      audios = [(element 10)\<lparr>src := ''a.mp3'', muted := True\<rparr>, (element 15)\<lparr>src := webkitUrl\<rparr>],
      durations = [10, 15], currentTime = 0, maxDuration = 15, frameRequest = None,
      effects = [SetMainWidth [10, 15] 15, EmitCanplay, SetMainWidth [10, 15] 15,
                 SetContainerOffsets, EmitStartPositionChange (IdString ''A'') 2],
      rafQueue = [], rafNext = 1\<rparr>"

section \<open>Properties\<close>

subsection \<open>Lists and outcomes\<close>

lemma map_update_same: "(map f xs)[i := f (xs ! i)] = map f xs"
  by (metis list_update_id map_update)

lemma findIndex_Some:
  "findIndex P xs = Some p \<Longrightarrow> p < length xs \<and> P (xs ! p) \<and> (\<forall>j < p. \<not> P (xs ! j))"
proof (induction xs arbitrary: p)
  case Nil
  then show ?case by simp
next
  case (Cons x xs)
  show ?case
  proof (cases "P x")
    case True
    with Cons.prems show ?thesis by simp
  next
    case False
    with Cons.prems obtain q where q: "findIndex P xs = Some q" and p: "p = Suc q" by auto
    from Cons.IH [OF q] False p show ?thesis by (auto simp: nth_Cons' less_Suc_eq_0_disj)
  qed
qed

lemma findIndex_SomeI:
  "p < length xs \<Longrightarrow> P (xs ! p) \<Longrightarrow> \<forall>j < p. \<not> P (xs ! j) \<Longrightarrow> findIndex P xs = Some p"
proof (induction xs arbitrary: p)
  case Nil
  then show ?case by simp
next
  case (Cons x xs)
  show ?case
  proof (cases p)
    case 0
    with Cons.prems show ?thesis by simp
  next
    case (Suc q)
    with Cons.prems have nx: "\<not> P x" by auto
    from Suc Cons.prems have "q < length xs" "P (xs ! q)" "\<forall>j < q. \<not> P (xs ! j)" by auto
    from Cons.IH [OF this] nx Suc show ?thesis by simp
  qed
qed

lemma findIndex_map: "findIndex P (map f xs) = findIndex (\<lambda>x. P (f x)) xs"
  by (induction xs) auto

lemma findIndex_src:
  "map src as = map src bs \<Longrightarrow> findIndex (\<lambda>a. src a = u) as = findIndex (\<lambda>a. src a = u) bs"
  using findIndex_map [of "\<lambda>x. x = u" src as] findIndex_map [of "\<lambda>x. x = u" src bs] by simp

lemma findIndex_update:
  assumes "findIndex P xs = Some p" and "i \<noteq> p" and "\<not> P x"
  shows "findIndex P (xs[i := x]) = Some p"
proof (rule findIndex_SomeI)
  note F = findIndex_Some [OF assms(1)]
  show "p < length (xs[i := x])" using F by simp
  show "P (xs[i := x] ! p)" using F assms(2) by simp
  show "\<forall>j < p. \<not> P (xs[i := x] ! j)"
  proof (intro allI impI)
    fix j assume "j < p"
    with F assms(3) show "\<not> P (xs[i := x] ! j)" by (cases "j = i") auto
  qed
qed

lemma Max_insert_max:
  fixes a b :: real
  assumes "finite A"
  shows "Max (insert (max a b) A) = Max (insert a (insert b A))"
proof (cases "A = {}")
  case True
  then show ?thesis by simp
next
  case False
  with assms show ?thesis by (simp add: max.assoc)
qed

lemma leaves_Ok [simp]: "leaves (Ok s) s' \<longleftrightarrow> s' = s"
  by (auto simp: leaves_def)

lemma leaves_Throw [simp]: "leaves (Throw e s) s' \<longleftrightarrow> s' = s"
  by (auto simp: leaves_def)

lemma leaves_Unmodelled [simp]: "\<not> leaves Unmodelled s'"
  by (simp add: leaves_def)

lemma leaves_and_then:
  "leaves (and_then r f) s' \<Longrightarrow> (\<exists>e. r = Throw e s') \<or> (\<exists>s1. r = Ok s1 \<and> leaves (f s1) s')"
  by (cases r) (auto simp: and_then_def)

subsection \<open>What \<open>updatePosition\<close> touches\<close>

lemma src_updateAudio: "src (updateAudio p t ds i trk a) = src a"
  by (simp add: updateAudio_def Let_def play_audio_def pause_audio_def)

lemma updateAudio_paused:
  "paused (updateAudio isPaused time ds index track audio) \<longleftrightarrow>
     isPaused \<or> time - startPosition track < 0 \<or> beyond_duration (time - startPosition track) ds index"
  by (simp add: updateAudio_def Let_def play_audio_def pause_audio_def)

lemma updateAudio_calls:
  "calls (updateAudio isPaused time ds index track audio) =
     calls audio @
     (if paused (updateAudio isPaused time ds index track audio) = paused audio then []
      else if paused audio then [PlayCall] else [PauseCall])"
  by (simp add: updateAudio_def Let_def play_audio_def pause_audio_def)

lemma updateAudio_muted:
  "muted (updateAudio isPaused time ds index track audio) = isMuted track (time - startPosition track)"
  by (auto simp: updateAudio_def Let_def play_audio_def pause_audio_def)

lemma updateTracks_frame:
  "updateTracks p t ds its as = Ok as' \<or> updateTracks p t ds its as = Throw e as' \<Longrightarrow>
   map src as' = map src as \<and> length as' = length as"
proof (induction its arbitrary: as)
  case Nil
  then show ?case by auto
next
  case (Cons it its)
  obtain index trk where it: "it = (index, trk)" by (cases it)
  show ?case
  proof (cases "index < length as")
    case True
    with Cons.prems it have
      "updateTracks p t ds its (as[index := updateAudio p t ds index trk (as ! index)]) = Ok as' \<or>
       updateTracks p t ds its (as[index := updateAudio p t ds index trk (as ! index)]) = Throw e as'"
      by simp
    from Cons.IH[OF this] True show ?thesis
      by (simp add: map_update src_updateAudio list_update_same_conv)
  next
    case False
    with Cons.prems it show ?thesis by auto
  qed
qed


lemma updateTracks_Ok:
  "n + length ts \<le> length as \<Longrightarrow>
   \<exists>as'. updateTracks p t ds (enumerate n ts) as = Ok as' \<and> length as' = length as \<and>
     (\<forall>j < length as. as' ! j =
        (if n \<le> j \<and> j < n + length ts then updateAudio p t ds j (ts ! (j - n)) (as ! j) else as ! j))"
proof (induction ts arbitrary: n as)
  case Nil
  then show ?case by auto
next
  case (Cons trk ts)
  let ?as1 = "as[n := updateAudio p t ds n trk (as ! n)]"
  from Cons.prems have n: "n < length as" and le: "Suc n + length ts \<le> length ?as1" by simp_all
  from Cons.IH[OF le] obtain as' where
    r: "updateTracks p t ds (enumerate (Suc n) ts) ?as1 = Ok as'" and
    l: "length as' = length ?as1" and
    v: "\<forall>j < length ?as1. as' ! j =
        (if Suc n \<le> j \<and> j < Suc n + length ts then updateAudio p t ds j (ts ! (j - Suc n)) (?as1 ! j) else ?as1 ! j)"
    by blast
  have "updateTracks p t ds (enumerate n (trk # ts)) as = Ok as'"
    using r n by simp
  moreover have "length as' = length as" using l by simp
  moreover have "\<forall>j < length as. as' ! j =
        (if n \<le> j \<and> j < n + length (trk # ts) then updateAudio p t ds j ((trk # ts) ! (j - n)) (as ! j) else as ! j)"
  proof (intro allI impI)
    fix j assume j: "j < length as"
    show "as' ! j = (if n \<le> j \<and> j < n + length (trk # ts) then updateAudio p t ds j ((trk # ts) ! (j - n)) (as ! j) else as ! j)"
    proof (cases "j = n")
      case True
      then show ?thesis using v j n by simp
    next
      case False
      then show ?thesis using v j n by (auto simp: nth_Cons' Suc_diff_Suc)
    qed
  qed
  ultimately show ?case by blast
qed


lemma updatePosition_frame:
  assumes "updatePosition time ac s = Ok s' \<or> updatePosition time ac s = Throw e s'"
  shows "tracks s' = tracks s" and "durations s' = durations s" and "maxDuration s' = maxDuration s"
    and "currentTime s' = time" and "options s' = options s" and "frameRequest s' = frameRequest s"
    and "rafQueue s' = rafQueue s" and "rafNext s' = rafNext s"
    and "map src (audios s') = map src (audios s)" and "length (audios s') = length (audios s)"
  using assms
  by (auto simp: updatePosition_def Let_def split: outcome.splits if_splits dest: updateTracks_frame [OF disjI1] updateTracks_frame [OF disjI2])

lemma updatePosition_Ok:
  assumes "length (tracks s) \<le> length (audios s)"
  shows "\<exists>s'. updatePosition time ac s = Ok s' \<and>
     (\<forall>j < length (tracks s). audios s' ! j =
        updateAudio (\<not> isPlaying s) time (durations s) j (tracks s ! j) (audios s ! j))"
proof -
  from assms have "0 + length (tracks s) \<le> length (audios s)" by simp
  from updateTracks_Ok [OF this, of "\<not> isPlaying s" time "durations s"]
  obtain as' where r: "updateTracks (\<not> isPlaying s) time (durations s) (enumerate 0 (tracks s)) (audios s) = Ok as'"
    and v: "\<forall>j < length (audios s). as' ! j =
        (if 0 \<le> j \<and> j < 0 + length (tracks s) then updateAudio (\<not> isPlaying s) time (durations s) j (tracks s ! (j - 0)) (audios s ! j) else audios s ! j)"
    by blast
  show ?thesis using r v assms by (auto simp: updatePosition_def Let_def)
qed

lemma leaves_updatePosition:
  assumes "leaves (updatePosition time ac s) s'"
  shows "currentTime s' = time \<and> maxDuration s' = maxDuration s"
proof -
  from assms obtain e where "updatePosition time ac s = Ok s' \<or> updatePosition time ac s = Throw e s'"
    by (auto simp: leaves_def)
  from updatePosition_frame(3,4) [OF this] show ?thesis by simp
qed


subsection \<open>What \<open>initDurations\<close> computes\<close>

lemma reduce_max_fold:
  "m \<le> fold (maxStep ds) (enumerate n ts) m \<and>
   (\<forall>i < length ts. startPosition (ts ! i) + ds ! (n + i) \<le> fold (maxStep ds) (enumerate n ts) m) \<and>
   (fold (maxStep ds) (enumerate n ts) m = m \<or>
    (\<exists>i < length ts. fold (maxStep ds) (enumerate n ts) m = startPosition (ts ! i) + ds ! (n + i)))"
proof (induction ts arbitrary: n m)
  case Nil
  then show ?case by simp
next
  case (Cons t ts)
  let ?m1 = "max m (startPosition t + ds ! n)"
  let ?r = "fold (maxStep ds) (enumerate (Suc n) ts) ?m1"
  have step: "fold (maxStep ds) (enumerate n (t # ts)) m = ?r" by (simp add: maxStep_def)
  note IH = Cons.IH [where n = "Suc n" and m = ?m1]
  have 1: "m \<le> ?r" using IH by linarith
  have 2: "\<forall>i < length (t # ts). startPosition ((t # ts) ! i) + ds ! (n + i) \<le> ?r"
  proof (intro allI impI)
    fix i assume i: "i < length (t # ts)"
    show "startPosition ((t # ts) ! i) + ds ! (n + i) \<le> ?r"
    proof (cases i)
      case 0
      then show ?thesis using IH by simp
    next
      case (Suc j)
      with i have "j < length ts" by simp
      with IH have "startPosition (ts ! j) + ds ! (Suc n + j) \<le> ?r" by blast
      with Suc show ?thesis by simp
    qed
  qed
  have 3: "?r = m \<or> (\<exists>i < length (t # ts). ?r = startPosition ((t # ts) ! i) + ds ! (n + i))"
  proof -
    from IH have "?r = ?m1 \<or> (\<exists>j < length ts. ?r = startPosition (ts ! j) + ds ! (Suc n + j))" by blast
    then show ?thesis
    proof
      assume a: "?r = ?m1"
      show ?thesis
      proof (cases "startPosition t + ds ! n \<le> m")
        case True
        with a show ?thesis by (simp add: max_def)
      next
        case False
        with a have "?r = startPosition ((t # ts) ! 0) + ds ! (n + 0)" by (simp add: max_def)
        then show ?thesis by blast
      qed
    next
      assume "\<exists>j < length ts. ?r = startPosition (ts ! j) + ds ! (Suc n + j)"
      then obtain j where "j < length ts" "?r = startPosition (ts ! j) + ds ! (Suc n + j)" by blast
      then have "Suc j < length (t # ts)" "?r = startPosition ((t # ts) ! Suc j) + ds ! (n + Suc j)" by simp_all
      then show ?thesis by blast
    qed
  qed
  show ?case unfolding step using 1 2 3 by blast
qed

lemma reduceMax_nonneg: "0 \<le> reduceMax ts ds"
  using reduce_max_fold [of 0 ds 0 ts] by (simp add: reduceMax_def)

lemma reduceMax_upper: "i < length ts \<Longrightarrow> startPosition (ts ! i) + ds ! i \<le> reduceMax ts ds"
  using reduce_max_fold [of 0 ds 0 ts] by (simp add: reduceMax_def)

lemma reduceMax_attained:
  "reduceMax ts ds = 0 \<or> (\<exists>i < length ts. reduceMax ts ds = startPosition (ts ! i) + ds ! i)"
  using reduce_max_fold [of 0 ds 0 ts] by (simp add: reduceMax_def)


lemma initDurations_OkD:
  assumes "initDurations ds s = Ok s'"
  shows "length (tracks s) \<le> length ds" and "tracks s' = tracks s"
    and "maxDuration s' = reduceMax (tracks s) ds" and "length (durations s') = length ds"
    and "durations s' = (case findIndex (\<lambda>a. src a = webkitUrl) (audios s) of None \<Rightarrow> ds | Some p \<Rightarrow> ds[p := reduceMax (tracks s) ds])"
    and "map src (audios s') = map src (audios s)" and "length (audios s') = length (audios s)"
    and "currentTime s' = currentTime s" and "options s' = options s" and "frameRequest s' = frameRequest s"
    and "rafQueue s' = rafQueue s" and "rafNext s' = rafNext s"
  using assms
  by (auto simp: initDurations_def Let_def PLACEHOLDER_TRACK_def map_update map_update_same
      split: option.splits if_splits)

lemma initDurations_Ok:
  assumes "length (tracks s) \<le> length ds" and "length (audios s) \<le> length ds"
  shows "\<exists>s'. initDurations ds s = Ok s'"
proof (cases "findIndex (\<lambda>a. src a = webkitUrl) (audios s)")
  case None
  with assms show ?thesis by (simp add: initDurations_def Let_def PLACEHOLDER_TRACK_def)
next
  case (Some p)
  from findIndex_Some [OF Some] assms have "p < length ds" by simp
  with Some assms show ?thesis by (simp add: initDurations_def Let_def PLACEHOLDER_TRACK_def)
qed


subsection \<open>The exact value of \<open>maxDuration\<close>\<close>

lemma reduceMax_split:
  assumes p: "p < length ts"
  shows "reduceMax ts ds =
     max (startPosition (ts ! p) + ds ! p)
       (Max (set (0 # map (\<lambda>i. startPosition (ts ! i) + ds ! i) (filter (\<lambda>i. i \<noteq> p) [0..<length ts]))))"
proof -
  let ?f = "\<lambda>i. startPosition (ts ! i) + ds ! i"
  let ?A = "set (0 # map ?f (filter (\<lambda>i. i \<noteq> p) [0..<length ts]))"
  have fin: "finite ?A" and ne: "?A \<noteq> {}" by simp_all
  have le: "Max ?A \<le> reduceMax ts ds"
  proof -
    have "\<forall>a \<in> ?A. a \<le> reduceMax ts ds"
      using reduceMax_nonneg [of ts ds] reduceMax_upper [of _ ts ds] by auto
    with Max_le_iff [OF fin ne, of "reduceMax ts ds"] show ?thesis by blast
  qed
  have lp: "?f p \<le> reduceMax ts ds" using reduceMax_upper [OF p] .
  have ge: "reduceMax ts ds \<le> max (?f p) (Max ?A)"
  proof -
    from reduceMax_attained [of ts ds] show ?thesis
    proof
      assume z: "reduceMax ts ds = 0"
      have "0 \<le> Max ?A" using fin by (intro Max_ge) simp_all
      then have "0 \<le> max (?f p) (Max ?A)" by (rule max.coboundedI2)
      then show ?thesis unfolding z .
    next
      assume "\<exists>i < length ts. reduceMax ts ds = ?f i"
      then obtain i where i: "i < length ts" and r: "reduceMax ts ds = ?f i" by blast
      show ?thesis
      proof (cases "i = p")
        case True
        have "?f p \<le> max (?f p) (Max ?A)" by (rule max.cobounded1)
        then show ?thesis unfolding r True .
      next
        case False
        with i have "?f i \<in> ?A" by simp
        with fin have "?f i \<le> Max ?A" by (intro Max_ge)
        then have "?f i \<le> max (?f p) (Max ?A)" by (rule max.coboundedI2)
        then show ?thesis unfolding r .
      qed
    qed
  qed
  have "max (?f p) (Max ?A) \<le> reduceMax ts ds" using lp le by (intro max.boundedI)
  with ge show ?thesis by (intro order.antisym)
qed

lemma reduceMax_exact:
  assumes t: "tracks s = ts" and d: "durations s = ds[p := m]" and p: "p < length ts"
  shows "reduceMax ts ds = max (startPosition (ts ! p) + ds ! p) (maxOverTracks s p)"
proof -
  have "map (\<lambda>i. startPosition (ts ! i) + ds ! i) (filter (\<lambda>i. i \<noteq> p) [0..<length ts])
        = endsOfOthers s p"
    unfolding endsOfOthers_def t d by (rule map_cong) auto
  with reduceMax_split [OF p, of ds] show ?thesis by (simp add: maxOverTracks_def)
qed

subsection \<open>The small engine is what the constructor and the load build\<close>

lemma webkitUrl_neq: "''a.mp3'' \<noteq> webkitUrl" "''b.mp3'' \<noteq> webkitUrl" "webkitUrl \<noteq> []"
  by (simp_all add: webkitUrl_def)

lemmas demo_defs = demo_def trackA_def trackB_def element_def PLACEHOLDER_TRACK_def demoOptions_def

lemmas eval_defs = updatePosition_def updateAudio_def isMuted_def startCue_or_0_def endCue_or_Infinity_def
  beyond_duration_def precisionSeconds_def isPlaying_def and_then_def play_audio_def pause_audio_def Let_def

lemma demo_loaded:
  "loaded (initAllAudios (tracks (create [trackA, trackB] demoOptions)) [element 10, element 10, element 0])
     (create [trackA, trackB] demoOptions) = Ok demo"
  by (simp add: loaded_def initAllAudios_def create_def initDurations_def reduceMax_def maxStep_def initAudio_def truthy_url_def
      and_then_def demo_def trackA_def trackB_def element_def PLACEHOLDER_TRACK_def webkitUrl_neq Let_def)

lemma demo_run:
  "run [Loaded (initAllAudios (tracks (create [trackA, trackB] demoOptions)) [element 10, element 10, element 0])]
     (create [trackA, trackB] demoOptions) = Some demo"
  using demo_loaded by simp


lemma run_demoLoad: "run (demoLoad # xs) (create [trackA, trackB] demoOptions) = run xs demo"
  using demo_loaded by (simp add: demoLoad_def)

lemma solo_run: "run (soloLoad # SetTrackStartPosition 0 2 # xs) (create [lateA] demoOptions) = run xs solo"
  by (simp add: soloLoad_def solo_def lateA_def loaded_def initAllAudios_def create_def initDurations_def
      reduceMax_def maxStep_def initAudio_def truthy_url_def setTrackStartPosition_def acceptStart_def
      commitStartPosition_def demo_defs eval_defs webkitUrl_neq)

subsection \<open>Cues\<close>

text \<open>
  The cue rule of the source and the specification's agree on every track whose \<open>endCue\<close>
  is not \<open>0\<close>; on the track of the scenario (\<open>startCue = 2\<close>, \<open>endCue = 8\<close>) both mute at
  \<open>1\<close> and \<open>9\<close> and not at \<open>5\<close>.
\<close>

theorem isMuted_unless_zero_endCue:
  "(endCue track \<noteq> Some 0 \<longrightarrow> isMuted track localTime = mutedBySpec track localTime) \<and>
   isMuted trackA 1 \<and> \<not> isMuted trackA 5 \<and> isMuted trackA 9"
  by (auto simp: isMuted_def mutedBySpec_def startCue_or_0_def endCue_or_Infinity_def trackA_def
      split: option.splits)

theorem isMuted_unless_zero_endCue_witness:
  "endCue trackB \<noteq> Some 0 \<and> isMuted trackB (- 1) \<and> mutedBySpec trackB (- 1) \<and>
   \<not> isMuted trackB 3 \<and> \<not> mutedBySpec trackB 3"
  using isMuted_unless_zero_endCue [of trackB "- 1"] isMuted_unless_zero_endCue [of trackB 3]
  by (simp add: trackB_def mutedBySpec_def)

text \<open>
  C1 fails on the code for an \<open>endCue\<close> that is present and \<open>0\<close>.  Take track \<open>B\<close> with
  \<open>endCue = 0\<close> and set the playhead to \<open>8\<close>, three seconds into \<open>B\<close>: the
  specification's rule mutes (\<open>3 > 0\<close>), the source's \<open>track.endCue || Infinity\<close> takes the
  zero cue for an absent one, and the audio of \<open>B\<close> is not muted after \<open>updatePosition\<close>.
\<close>

theorem zero_endCue_is_not_muted:
  "mutedBySpec (trackB\<lparr>endCue := Some 0\<rparr>) (8 - startPosition (trackB\<lparr>endCue := Some 0\<rparr>)) \<and>
   \<not> isMuted (trackB\<lparr>endCue := Some 0\<rparr>) (8 - startPosition (trackB\<lparr>endCue := Some 0\<rparr>)) \<and>
   (\<exists>s'. updatePosition 8 False (demo\<lparr>tracks := [trackA, trackB\<lparr>endCue := Some 0\<rparr>, PLACEHOLDER_TRACK]\<rparr>) = Ok s' \<and>
         \<not> muted (audios s' ! 1))"
  by (simp add: mutedBySpec_def demo_defs eval_defs)

subsection \<open>Committing a start position\<close>

lemma commitStartPosition_OkD:
  assumes "commitStartPosition index v s = Ok s'"
  shows "tracks s' = (tracks s)[index := (tracks s ! index)\<lparr>startPosition := v\<rparr>]"
    and "maxDuration s' = reduceMax (tracks s') (durations s)"
    and "durations s' = (case findIndex (\<lambda>a. src a = webkitUrl) (audios s) of
                           None \<Rightarrow> durations s | Some p \<Rightarrow> (durations s)[p := maxDuration s'])"
    and "currentTime s' = currentTime s" and "options s' = options s"
    and "map src (audios s') = map src (audios s)" and "length (audios s') = length (audios s)"
    and "frameRequest s' = frameRequest s" and "rafQueue s' = rafQueue s" and "rafNext s' = rafNext s"
proof -
  let ?s1 = "s\<lparr>tracks := (tracks s)[index := (tracks s ! index)\<lparr>startPosition := v\<rparr>]\<rparr>"
  from assms obtain s2 s3 where
    i: "initDurations (durations s) ?s1 = Ok s2" and
    u: "updatePosition (currentTime s2) False (s2\<lparr>effects := effects s2 @ [SetContainerOffsets]\<rparr>) = Ok s3" and
    e: "s' = s3\<lparr>effects := effects s3 @ [EmitStartPositionChange (track_id (tracks s ! index)) v]\<rparr>"
    by (auto simp: commitStartPosition_def and_then_def Let_def split: outcome.splits)
  note I = initDurations_OkD [OF i]
  note U = updatePosition_frame [OF disjI1, OF u]
  show "tracks s' = (tracks s)[index := (tracks s ! index)\<lparr>startPosition := v\<rparr>]"
    using e U(1) I(2) by simp
  then show "maxDuration s' = reduceMax (tracks s') (durations s)"
    using e U(3) I(3) by simp
  then show "durations s' = (case findIndex (\<lambda>a. src a = webkitUrl) (audios s) of
                           None \<Rightarrow> durations s | Some p \<Rightarrow> (durations s)[p := maxDuration s'])"
    using e U(2) U(3) I(3) I(5) by (simp split: option.splits)
  show "currentTime s' = currentTime s" using e U(4) I(8) by simp
  show "options s' = options s" using e U(5) I(9) by simp
  show "map src (audios s') = map src (audios s)" using e U(9) I(6) by simp
  show "length (audios s') = length (audios s)" using e U(10) I(7) by simp
  show "frameRequest s' = frameRequest s" using e U(6) I(10) by simp
  show "rafQueue s' = rafQueue s" using e U(7) I(11) by simp
  show "rafNext s' = rafNext s" using e U(8) I(12) by simp
qed

lemma commitStartPosition_Ok:
  assumes "length (audios s) = length (tracks s)" and "length (durations s) = length (tracks s)"
  shows "\<exists>s'. commitStartPosition index v s = Ok s'"
proof -
  let ?s1 = "s\<lparr>tracks := (tracks s)[index := (tracks s ! index)\<lparr>startPosition := v\<rparr>]\<rparr>"
  from assms have "length (tracks ?s1) \<le> length (durations s)" "length (audios ?s1) \<le> length (durations s)"
    by simp_all
  from initDurations_Ok [OF this] obtain s2 where i: "initDurations (durations s) ?s1 = Ok s2" by blast
  note I = initDurations_OkD [OF i]
  let ?s2 = "s2\<lparr>effects := effects s2 @ [SetContainerOffsets]\<rparr>"
  from I(2) I(7) assms have "length (tracks ?s2) \<le> length (audios ?s2)" by simp
  from updatePosition_Ok [OF this] obtain s3 where
    u: "updatePosition (currentTime s2) False ?s2 = Ok s3" by blast
  show ?thesis using i u by (simp add: commitStartPosition_def and_then_def Let_def)
qed

text \<open>
  C2.  For a draggable track, \<open>onDrag\<close> proposes the start
  \<open>startPosition + delta * maxDuration\<close> and compares it with
  \<open>minStart = (0 if dragBounds, else -duration - 1)\<close> and \<open>maxStart = maxDuration - duration\<close>.
  Inside the bounds the track starts exactly at the proposed value when the method returns;
  outside them the whole object is as before: nothing is clamped and nothing is committed
  in part.  The second half says the same of \<open>setTrackStartPosition\<close>, whose proposal is
  its argument.
\<close>

theorem drag_commit_all_or_nothing:
  assumes "index < length (tracks s)" and "draggable (tracks s ! index)"
    and "length (audios s) = length (tracks s)" and "length (durations s) = length (tracks s)"
  shows "(let proposedStart = startPosition (tracks s ! index) + delta * maxDuration s;
              minStart = (if dragBounds (options s) then 0 else - (durations s ! index) - 1);
              maxStart = maxDuration s - durations s ! index
          in \<exists>s'. onDrag index delta s = Ok s' \<and>
               (if minStart \<le> proposedStart \<and> proposedStart \<le> maxStart
                then startPosition (tracks s' ! index) = proposedStart
                else s' = s)) \<and>
         (let proposedStart = val;
              minStart = (if dragBounds (options s) then 0 else - (durations s ! index) - 1);
              maxStart = maxDuration s - durations s ! index
          in \<exists>s'. setTrackStartPosition index val s = Ok s' \<and>
               (if minStart \<le> proposedStart \<and> proposedStart \<le> maxStart
                then startPosition (tracks s' ! index) = proposedStart
                else s' = s))"
proof -
  have commit: "\<exists>s'. commitStartPosition index v s = Ok s' \<and> startPosition (tracks s' ! index) = v" for v
  proof -
    from commitStartPosition_Ok [OF assms(3,4)] obtain s' where c: "commitStartPosition index v s = Ok s'"
      by blast
    from commitStartPosition_OkD(1) [OF c] assms(1) have "startPosition (tracks s' ! index) = v" by simp
    with c show ?thesis by blast
  qed
  have acc: "acceptStart index v s \<longleftrightarrow>
      (if dragBounds (options s) then 0 else - (durations s ! index) - 1) \<le> v \<and>
      v \<le> maxDuration s - durations s ! index" for v
    using assms(1,4) by (simp add: acceptStart_def Let_def)
  show ?thesis
    using assms(1,2) commit [of "startPosition (tracks s ! index) + delta * maxDuration s"] commit [of val]
    by (simp add: onDrag_def setTrackStartPosition_def Let_def acc)
qed

theorem drag_commit_witness:
  "(\<exists>s'. onDrag 0 (1/5) demo = Ok s' \<and> startPosition (tracks s' ! 0) = 3) \<and>
   onDrag 0 (- 1/10) demo = Ok demo \<and>
   (\<exists>s'. setTrackStartPosition 0 5 demo = Ok s' \<and> startPosition (tracks s' ! 0) = 5) \<and>
   setTrackStartPosition 0 6 demo = Ok demo"
  using drag_commit_all_or_nothing [of 0 demo "1/5" 5]
    drag_commit_all_or_nothing [of 0 demo "- 1/10" 6]
  by (simp add: demo_def trackA_def demoOptions_def Let_def)

subsection \<open>What a recomputation leaves\<close>

text \<open>
  \<open>initDurations\<close> on a state whose placeholder is at \<open>p\<close>, where the durations it is
  given have one for each track and audio.
\<close>

lemma initDurations_recomputed:
  assumes f: "findIndex (\<lambda>a. src a = webkitUrl) (audios s1) = Some p"
    and la: "length (audios s1) = length (tracks s1)" and ld: "length ds = length (tracks s1)"
    and z: "startPosition (tracks s1 ! p) = 0" and nd: "\<not> draggable (tracks s1 ! p)"
  shows "\<exists>s2. initDurations ds s1 = Ok s2 \<and> tracks s2 = tracks s1 \<and>
           map src (audios s2) = map src (audios s1) \<and> durations s2 = ds[p := maxDuration s2] \<and>
           currentTime s2 = currentTime s1 \<and> recomputed (ds ! p) s2 p"
proof -
  from initDurations_Ok [of s1 ds] la ld obtain s2 where i: "initDurations ds s1 = Ok s2" by auto
  note I = initDurations_OkD [OF i]
  from findIndex_Some [OF f] la have p: "p < length (tracks s1)" by simp
  have d: "durations s2 = ds[p := maxDuration s2]" using I(3,5) f by simp
  have m: "maxDuration s2 = max (ds ! p) (maxOverTracks s2 p)"
    using reduceMax_exact [OF I(2) d p] I(3) z by simp
  have n: "0 \<le> maxDuration s2" using I(3) reduceMax_nonneg by simp
  have "findIndex (\<lambda>a. src a = webkitUrl) (audios s2) = Some p"
    using findIndex_src [OF I(6), of webkitUrl] f by simp
  then have "settled s2 p"
    using I(2,7) la ld d p z nd by (simp add: settled_def placeholderAt_def)
  with m n have "recomputed (ds ! p) s2 p" by (simp add: recomputed_def)
  with i I(2,6,8) d show ?thesis by blast
qed

lemma loaded_recomputed:
  assumes f: "findIndex (\<lambda>a. src a = webkitUrl) as = Some p"
    and len: "length as = length (tracks c)"
    and z: "startPosition (tracks c ! p) = 0" and nd: "\<not> draggable (tracks c ! p)"
  shows "\<exists>s. loaded as c = Ok s \<and> tracks s = tracks c \<and> map src (audios s) = map src as \<and>
           durations s = (map (\<lambda>a. if src a \<noteq> [] then duration a else 0) as)[p := maxDuration s] \<and>
           recomputed (duration (as ! p)) s p"
proof -
  let ?s1 = "c\<lparr>audios := as\<rparr>"
  let ?ds = "map (\<lambda>a. if src a \<noteq> [] then duration a else 0) as"
  from findIndex_Some [OF f] have p: "p < length as" and sp: "src (as ! p) = webkitUrl" by simp_all
  from sp have "src (as ! p) \<noteq> []" by (simp add: webkitUrl_neq)
  with p have dp: "?ds ! p = duration (as ! p)" by simp
  from initDurations_recomputed [of ?s1 p ?ds] f len z nd
  obtain s2 where i: "initDurations ?ds ?s1 = Ok s2" and t: "tracks s2 = tracks c"
    and a: "map src (audios s2) = map src as" and d: "durations s2 = ?ds[p := maxDuration s2]"
    and r: "recomputed (?ds ! p) s2 p" by auto
  let ?s = "s2\<lparr>effects := effects s2 @ [EmitCanplay]\<rparr>"
  have l: "loaded as c = Ok ?s" using i by (simp add: loaded_def and_then_def Let_def)
  have "recomputed (duration (as ! p)) ?s p"
    using r dp by (simp add: recomputed_def settled_def placeholderAt_def maxOverTracks_def endsOfOthers_def)
  with l t a d show ?thesis by simp
qed

lemma tracks_create: "tracks (create ts opts) = ts @ [PLACEHOLDER_TRACK]"
proof -
  have "(\<lambda>track :: TrackOptions. track\<lparr>startPosition := (if startPosition track = 0 then 0 else startPosition track)\<rparr>)
        = (\<lambda>track. track)"
    by (rule ext) simp
  then show ?thesis by (simp add: create_def)
qed

lemma src_initAudio:
  "src (initAudio track a) = (if truthy_url track then the (url track) else src a)"
  by (simp add: initAudio_def)

text \<open>
  The audios of a new object: the placeholder's is the last, and the first with its URL
  when no track of the caller and no element carries that URL.
\<close>

lemma created_audios:
  assumes n: "length elements = Suc (length ts)"
    and nt: "\<forall>t \<in> set ts. url t \<noteq> Some webkitUrl"
    and ne: "\<forall>a \<in> set elements. src a \<noteq> webkitUrl"
  shows "findIndex (\<lambda>a. src a = webkitUrl) (initAllAudios (tracks (create ts opts)) elements) = Some (length ts)"
    and "length (initAllAudios (tracks (create ts opts)) elements) = Suc (length ts)"
    and "duration (initAllAudios (tracks (create ts opts)) elements ! length ts) = duration (last elements)"
proof -
  let ?as = "initAllAudios (tracks (create ts opts)) elements"
  show las: "length ?as = Suc (length ts)" using n by (simp add: initAllAudios_def tracks_create)
  have at: "?as ! j = initAudio ((ts @ [PLACEHOLDER_TRACK]) ! j) (elements ! j)" if "j < Suc (length ts)" for j
    using that n by (simp add: initAllAudios_def tracks_create)
  have e: "elements ! length ts = last elements"
    using n by (metis diff_Suc_1 last_conv_nth length_0_conv nat.distinct(1))
  have lastA: "?as ! length ts = (last elements)\<lparr>src := webkitUrl\<rparr>"
    using at [of "length ts"] e by (simp add: initAudio_def truthy_url_def PLACEHOLDER_TRACK_def webkitUrl_neq)
  then show "duration (?as ! length ts) = duration (last elements)" by simp
  have before: "\<forall>j < length ts. src (?as ! j) \<noteq> webkitUrl"
  proof (intro allI impI)
    fix j assume j: "j < length ts"
    then have t: "ts ! j \<in> set ts" and a: "elements ! j \<in> set elements" using n by simp_all
    from j at [of j] have "?as ! j = initAudio (ts ! j) (elements ! j)" by (simp add: nth_append)
    with nt ne t a show "src (?as ! j) \<noteq> webkitUrl"
      by (auto simp: src_initAudio truthy_url_def split: option.splits)
  qed
  show "findIndex (\<lambda>a. src a = webkitUrl) ?as = Some (length ts)"
    using las lastA before by (intro findIndex_SomeI) simp_all
qed

text \<open>The load of a newly constructed object.\<close>

lemma created_recomputed:
  assumes n: "length elements = Suc (length ts)"
    and nt: "\<forall>t \<in> set ts. url t \<noteq> Some webkitUrl"
    and ne: "\<forall>a \<in> set elements. src a \<noteq> webkitUrl"
  shows "\<exists>s. loaded (initAllAudios (tracks (create ts opts)) elements) (create ts opts) = Ok s \<and>
           tracks s = ts @ [PLACEHOLDER_TRACK] \<and>
           recomputed (duration (last elements)) s (length ts)"
proof -
  let ?c = "create ts opts"
  let ?as = "initAllAudios (tracks ?c) elements"
  note A = created_audios [OF n nt ne, of opts]
  have len: "length ?as = length (tracks ?c)" using A(2) by (simp add: tracks_create)
  have z: "startPosition (tracks ?c ! length ts) = 0" and nd: "\<not> draggable (tracks ?c ! length ts)"
    by (simp_all add: tracks_create PLACEHOLDER_TRACK_def)
  from loaded_recomputed [OF A(1) len z nd] A(3) show ?thesis by (auto simp: tracks_create)
qed

lemma commit_recomputed:
  assumes st: "settled s0 p" and ne: "index \<noteq> p"
  shows "\<exists>s. commitStartPosition index v s0 = Ok s \<and>
           tracks s = (tracks s0)[index := (tracks s0 ! index)\<lparr>startPosition := v\<rparr>] \<and>
           currentTime s = currentTime s0 \<and> recomputed (maxDuration s0) s p"
proof -
  from st have len: "length (audios s0) = length (tracks s0)" "length (durations s0) = length (tracks s0)"
    and f: "findIndex (\<lambda>a. src a = webkitUrl) (audios s0) = Some p"
    and p: "p < length (tracks s0)" and z: "startPosition (tracks s0 ! p) = 0"
    and nd: "\<not> draggable (tracks s0 ! p)" and d: "durations s0 ! p = maxDuration s0"
    by (simp_all add: settled_def placeholderAt_def)
  from commitStartPosition_Ok [OF len, of index v] obtain s where c: "commitStartPosition index v s0 = Ok s" by blast
  note C = commitStartPosition_OkD [OF c]
  have tp: "tracks s ! p = tracks s0 ! p" using C(1) ne by simp
  have lt: "length (tracks s) = length (tracks s0)" using C(1) by simp
  have ds: "durations s = (durations s0)[p := maxDuration s]" using C(3) f by simp
  from p lt have p': "p < length (tracks s)" by simp
  have m: "maxDuration s = max (maxDuration s0) (maxOverTracks s p)"
    using reduceMax_exact [OF refl ds p'] C(2) tp z d by simp
  have n: "0 \<le> maxDuration s" using C(2) reduceMax_nonneg by simp
  have "findIndex (\<lambda>a. src a = webkitUrl) (audios s) = Some p"
    using findIndex_src [OF C(6), of webkitUrl] f by simp
  then have "settled s p"
    using len lt p tp z nd ds C(7) by (simp add: settled_def placeholderAt_def)
  with m n have "recomputed (maxDuration s0) s p" by (simp add: recomputed_def)
  with c C(1,4) show ?thesis by blast
qed

lemma addTrack_then_recomputed:
  assumes st: "settled s0 p" and i: "index < length (tracks s0)" and ne: "index \<noteq> p"
    and na: "src audio \<noteq> webkitUrl" and ld: "loadedDuration track audio = Some d"
  shows "\<exists>s. addTrack_then index track audio s0 = Ok s \<and> tracks s = tracks s0 \<and>
           map src (audios s) = map src ((audios s0)[index := audio]) \<and>
           durations s = (durations s0)[index := d, p := maxDuration s] \<and>
           currentTime s = currentTime s0 \<and> recomputed (maxDuration s0) s p"
proof -
  let ?s1 = "s0\<lparr>audios := (audios s0)[index := audio], durations := (durations s0)[index := d]\<rparr>"
  from st have len: "length (audios s0) = length (tracks s0)" "length (durations s0) = length (tracks s0)"
    and f: "findIndex (\<lambda>a. src a = webkitUrl) (audios s0) = Some p"
    and p: "p < length (tracks s0)" and z: "startPosition (tracks s0 ! p) = 0"
    and nd: "\<not> draggable (tracks s0 ! p)" and dp: "durations s0 ! p = maxDuration s0"
    by (simp_all add: settled_def placeholderAt_def)
  have f1: "findIndex (\<lambda>a. src a = webkitUrl) (audios ?s1) = Some p"
    using findIndex_update [OF f ne, of audio] na by simp
  from initDurations_recomputed [of ?s1 p "durations ?s1"] f1 len z nd
  obtain s2 where i2: "initDurations (durations ?s1) ?s1 = Ok s2" and t: "tracks s2 = tracks s0"
    and a: "map src (audios s2) = map src ((audios s0)[index := audio])"
    and d2: "durations s2 = (durations s0)[index := d, p := maxDuration s2]"
    and c: "currentTime s2 = currentTime s0"
    and r: "recomputed (durations ?s1 ! p) s2 p" by auto
  have dp1: "durations ?s1 ! p = maxDuration s0" using ne dp by simp
  let ?s = "s2\<lparr>effects := effects s2 @ [EmitCanplay]\<rparr>"
  have l: "addTrack_then index track audio s0 = Ok ?s"
    using i2 i len ld by (simp add: addTrack_then_def and_then_def Let_def)
  have "recomputed (maxDuration s0) ?s p"
    using r dp1 by (simp add: recomputed_def settled_def placeholderAt_def maxOverTracks_def endsOfOthers_def)
  with l t a d2 c show ?thesis by simp
qed

text \<open>
  The part of \<open>addTrack\<close> that runs at once keeps a settled state settled, when the new
  track does not take the placeholder's id, and leaves \<open>maxDuration\<close> as it was.
\<close>

lemma addTrack_settled:
  assumes st: "settled s p" and id: "track_id track \<noteq> track_id (tracks s ! p)"
  shows "settled (addTrack track s) p \<and> maxDuration (addTrack track s) = maxDuration s"
proof (cases "findIndex (\<lambda>t. track_id t = track_id track) (tracks s)")
  case None
  with st show ?thesis by (simp add: addTrack_def)
next
  case (Some index)
  from findIndex_Some [OF Some] id have "index \<noteq> p" by auto
  with st Some show ?thesis by (simp add: addTrack_def settled_def placeholderAt_def)
qed

lemma addTrack_maxDuration: "maxDuration (addTrack track s) = maxDuration s"
  by (simp add: addTrack_def split: option.splits)

subsection \<open>The synchronisation clock never moves the playhead back\<close>

lemma framePosition_candidate:
  "n + length as \<le> length ts \<Longrightarrow>
   framePosition ts (enumerate n as) pos =
     Some (Max (set (pos # map (\<lambda>(audio, track). audio_currentTime audio + startPosition track)
                 (filter (\<lambda>(audio, track). \<not> paused audio) (zip as (drop n ts))))))"
proof (induction as arbitrary: n pos)
  case Nil
  then show ?case by simp
next
  case (Cons a as)
  from Cons.prems have n: "n < length ts" and le: "Suc n + length as \<le> length ts" by simp_all
  from n have d: "drop n ts = ts ! n # drop (Suc n) ts" by (simp add: Cons_nth_drop_Suc)
  show ?case
  proof (cases "paused a")
    case True
    with Cons.IH [OF le, of pos] d show ?thesis by simp
  next
    case False
    with Cons.IH [OF le, of "max pos (audio_currentTime a + startPosition (ts ! n))"] d n
    show ?thesis by (simp add: Max_insert_max)
  qed
qed

lemma framePosition_mono: "framePosition ts ps pos = Some q \<Longrightarrow> pos \<le> q"
proof (induction ps arbitrary: pos)
  case Nil
  then show ?case by simp
next
  case (Cons ia ps)
  obtain index a where ia: "ia = (index, a)" by (cases ia)
  show ?case
  proof (cases "paused a")
    case True
    with Cons ia show ?thesis by simp
  next
    case False
    with Cons.prems ia have
      "framePosition ts ps (max pos (audio_currentTime a + startPosition (ts ! index))) = Some q"
      by (simp split: if_splits)
    from Cons.IH [OF this] show ?thesis by simp
  qed
qed


lemma onFrame_never_back:
  assumes "onFrame s = Ok s' \<or> onFrame s = Throw e s'"
  shows "currentTime s \<le> currentTime s'"
proof (cases "framePosition (tracks s) (enumerate 0 (audios s)) (currentTime s)")
  case None
  with assms show ?thesis by (simp add: onFrame_def)
next
  case (Some position)
  note le = framePosition_mono [OF Some]
  show ?thesis
  proof (cases "position > currentTime s")
    case False
    with assms Some show ?thesis by (auto simp: onFrame_def and_then_def requestFrame_def)
  next
    case True
    with assms Some obtain s1 where
      "updatePosition position True s = Ok s1 \<or> updatePosition position True s = Throw e s1"
      and "currentTime s' = currentTime s1"
      by (auto simp: onFrame_def and_then_def requestFrame_def split: outcome.splits)
    with updatePosition_frame(4) [of position True s s1 e] le show ?thesis by simp
  qed
qed

lemma positions_sorted: "sorted (currentTime s # positions envs s)"
proof (induction envs arbitrary: s)
  case Nil
  then show ?case by simp
next
  case (Cons as envs)
  let ?s = "s\<lparr>audios := as\<rparr>"
  show ?case
  proof (cases "onFrame ?s")
    case (Ok s')
    with onFrame_never_back [of ?s s'] have "currentTime s \<le> currentTime s'" by simp
    with Cons.IH [of s'] Ok show ?thesis by auto
  next
    case (Throw e s')
    with onFrame_never_back [of ?s s' e] have "currentTime s \<le> currentTime s'" by simp
    with Cons.IH [of s'] Throw show ?thesis by auto
  next
    case Unmodelled
    then show ?thesis by simp
  qed
qed

text \<open>
  C4.  In an object whose audios and tracks correspond, a tick computes the
  specification's candidate.  When the candidate is greater than the playhead,
  \<open>updatePosition\<close> is called with it, and the playhead is the candidate afterwards;
  otherwise \<open>updatePosition\<close> is not called and the tick only schedules the next one.
  Either way the playhead after the tick is the candidate and not less than before.
  Along any run of ticks, whatever the elements do in between, the playhead never
  decreases.
\<close>

theorem sync_clock_tick:
  assumes "length (audios s) = length (tracks s)"
  shows "framePosition (tracks s) (enumerate 0 (audios s)) (currentTime s) = Some (candidate s) \<and>
         (\<exists>s'. onFrame s = Ok s' \<and> currentTime s' = candidate s \<and> currentTime s \<le> currentTime s' \<and>
            (if currentTime s < candidate s
             then \<exists>s1. updatePosition (candidate s) True s = Ok s1 \<and> s' = requestFrame s1
             else s' = requestFrame s)) \<and>
         sorted (currentTime s # positions envs s)"
proof -
  from assms have "0 + length (audios s) \<le> length (tracks s)" by simp
  from framePosition_candidate [OF this, of "currentTime s"]
  have f: "framePosition (tracks s) (enumerate 0 (audios s)) (currentTime s) = Some (candidate s)"
    by (simp add: candidate_def)
  note le = framePosition_mono [OF f]
  have "\<exists>s'. onFrame s = Ok s' \<and> currentTime s' = candidate s \<and> currentTime s \<le> currentTime s' \<and>
            (if currentTime s < candidate s
             then \<exists>s1. updatePosition (candidate s) True s = Ok s1 \<and> s' = requestFrame s1
             else s' = requestFrame s)"
  proof (cases "currentTime s < candidate s")
    case True
    from assms have "length (tracks s) \<le> length (audios s)" by simp
    from updatePosition_Ok [OF this, of "candidate s" True] obtain s1 where
      u: "updatePosition (candidate s) True s = Ok s1" by blast
    from updatePosition_frame(4) [OF disjI1, OF u] have "currentTime s1 = candidate s" .
    with u f True le show ?thesis by (simp add: onFrame_def and_then_def requestFrame_def)
  next
    case False
    with f le show ?thesis by (simp add: onFrame_def and_then_def requestFrame_def)
  qed
  with f positions_sorted show ?thesis by blast
qed

theorem sync_clock_tick_witness:
  "candidate playingB = 8 \<and> (\<exists>s'. onFrame playingB = Ok s' \<and> currentTime s' = 8) \<and>
   positions [audios playingB, audios demo] playingB = [8, 8]"
proof -
  have c: "candidate playingB = 8" by (simp add: candidate_def playingB_def demo_defs)
  have p: "positions [audios playingB, audios demo] playingB = [8, 8]"
    by (simp add: onFrame_def requestFrame_def playingB_def demo_defs eval_defs)
  from sync_clock_tick [of playingB "[]"] c p show ?thesis by (auto simp: playingB_def demo_def)
qed

subsection \<open>Pausing and destroying leave frames pending\<close>

text \<open>
  C5 fails on the code.  \<open>play()\<close> schedules the frame with handle \<open>1\<close>, and
  \<open>destroy()\<close> right after it cancels that frame.  \<open>pause()\<close> pauses the audios and
  leaves the pending frame alone: after \<open>play()\<close> and \<open>pause()\<close> the handle \<open>1\<close> is still
  pending, the frame runs the tick, and the tick schedules the next one.  \<open>destroy()\<close>
  cancels the handle in \<open>frameRequest\<close> only: after two calls of \<open>play()\<close> that is the
  second loop's, and the first loop's tick still runs after \<open>destroy()\<close>.
\<close>

theorem pause_leaves_the_frame_pending:
  "map_option rafQueue (run [Play] demo) = Some [1] \<and>
   map_option rafQueue (run [Play, Destroy] demo) = Some [] \<and>
   map_option rafQueue (run [Play, Pause] demo) = Some [1] \<and>
   map_option rafQueue (run [Play, Pause, Frame 1] demo) = Some [2] \<and>
   map_option rafQueue (run [Play, Play, Destroy] demo) = Some [1] \<and>
   map_option rafQueue (run [Play, Play, Destroy, Frame 1] demo) = Some [3]"
  by (simp add: play_def pause_def destroy_def startSync_def onFrame_def runFrame_def requestFrame_def
      cancelAnimationFrame_def findCurrentTracks_def playAt_def truthy_url_def demo_defs eval_defs webkitUrl_neq)

subsection \<open>The audio of each track after \<open>updatePosition\<close>\<close>

text \<open>
  What \<open>updatePosition\<close> does to the audio of each track, when every track has one: with
  \<open>localTime = time - startPosition\<close>, the audio ends paused exactly when playback was
  paused at the call, or \<open>localTime < 0\<close>, or \<open>localTime > duration\<close>; it receives one
  \<open>play()\<close> or \<open>pause()\<close> when that changes its state and no call otherwise; and it ends
  muted exactly when \<open>isMuted\<close> holds of \<open>localTime\<close>.
\<close>

theorem updatePosition_each_audio:
  assumes "length (tracks s) \<le> length (audios s)" and "j < length (tracks s)"
  shows "\<exists>s'. updatePosition time autoCenter s = Ok s' \<and>
     (let localTime = time - startPosition (tracks s ! j) in
       (paused (audios s' ! j) \<longleftrightarrow>
          \<not> isPlaying s \<or> localTime < 0 \<or> beyond_duration localTime (durations s) j) \<and>
       calls (audios s' ! j) =
          calls (audios s ! j) @
          (if paused (audios s' ! j) = paused (audios s ! j) then []
           else if paused (audios s ! j) then [PlayCall] else [PauseCall]) \<and>
       muted (audios s' ! j) = isMuted (tracks s ! j) localTime)"
proof -
  from updatePosition_Ok [OF assms(1), of time autoCenter] obtain s' where
    u: "updatePosition time autoCenter s = Ok s'" and
    a: "\<forall>j < length (tracks s). audios s' ! j =
        updateAudio (\<not> isPlaying s) time (durations s) j (tracks s ! j) (audios s ! j)" by blast
  from a assms(2) have "audios s' ! j =
        updateAudio (\<not> isPlaying s) time (durations s) j (tracks s ! j) (audios s ! j)" by blast
  with u show ?thesis
    using updateAudio_paused [of "\<not> isPlaying s" time "durations s" j "tracks s ! j" "audios s ! j"]
      updateAudio_calls [of "\<not> isPlaying s" time "durations s" j "tracks s ! j" "audios s ! j"]
      updateAudio_muted [of "\<not> isPlaying s" time "durations s" j "tracks s ! j" "audios s ! j"]
    by (simp add: Let_def)
qed

theorem updatePosition_each_audio_witness:
  "\<exists>s'. updatePosition 8 False playingB = Ok s' \<and>
        \<not> paused (audios s' ! 0) \<and> calls (audios s' ! 0) = [PlayCall] \<and>
        \<not> paused (audios s' ! 1) \<and> calls (audios s' ! 1) = [] \<and> \<not> muted (audios s' ! 1)"
  using updatePosition_each_audio [of playingB 0 8 False] updatePosition_each_audio [of playingB 1 8 False]
  by (auto simp: playingB_def demo_defs isPlaying_def beyond_duration_def isMuted_def startCue_or_0_def
      endCue_or_Infinity_def Let_def)

text \<open>
  C6 fails on the code at \<open>localTime = duration\<close>.  While \<open>B\<close> plays, set the playhead
  to \<open>10\<close>: track \<open>A\<close> starts at \<open>0\<close> and lasts \<open>10\<close>, so its local time is \<open>10\<close> and it
  is out of range by the specification's rule.  The source tests \<open>newTime > duration\<close>,
  takes \<open>A\<close> for in range and calls \<open>play()\<close> on its paused audio, which ends playing.
\<close>

theorem end_of_track_is_played:
  "isPlaying playingB \<and>
   \<not> inRangeBySpec (10 - startPosition (tracks playingB ! 0)) (durations playingB ! 0) \<and>
   paused (audios playingB ! 0) \<and>
   (\<exists>s'. updatePosition 10 False playingB = Ok s' \<and>
         \<not> paused (audios s' ! 0) \<and> calls (audios s' ! 0) = [PlayCall])"
  by (simp add: inRangeBySpec_def playingB_def demo_defs eval_defs)

subsection \<open>The playback rate\<close>



subsection \<open>The setter on a track that is not draggable\<close>

text \<open>
  C10.  On a track that is not draggable \<open>setTrackStartPosition\<close> returns the object as
  it is, whatever the value: no start position, no \<open>maxDuration\<close>, no playhead, no audio
  changes, and the list of emitted events and rendering calls is the same, so no
  \<open>start-position-change\<close> was emitted.
\<close>

theorem setTrackStartPosition_not_draggable:
  assumes "index < length (tracks s)" and "\<not> draggable (tracks s ! index)"
  shows "setTrackStartPosition index val s = Ok s"
  using assms by (simp add: setTrackStartPosition_def)

theorem setTrackStartPosition_not_draggable_witness:
  "setTrackStartPosition 1 2 demo = Ok demo \<and> setTrackStartPosition 2 (- 7) demo = Ok demo"
  using setTrackStartPosition_not_draggable [of 1 demo 2] setTrackStartPosition_not_draggable [of 2 demo "- 7"]
  by (simp add: demo_def trackB_def PLACEHOLDER_TRACK_def)

subsection \<open>The playhead stays non-negative unless it is set negative\<close>

lemma leaves_onFrame:
  assumes "leaves (onFrame s) s'"
  shows "currentTime s \<le> currentTime s' \<and> maxDuration s' = maxDuration s"
proof -
  from assms obtain e where o: "onFrame s = Ok s' \<or> onFrame s = Throw e s'" by (auto simp: leaves_def)
  have "maxDuration s' = maxDuration s"
  proof (cases "framePosition (tracks s) (enumerate 0 (audios s)) (currentTime s)")
    case None
    with o show ?thesis by (simp add: onFrame_def)
  next
    case (Some position)
    with assms have "leaves (and_then (if position > currentTime s then updatePosition position True s else Ok s)
            (\<lambda>s1. Ok (requestFrame s1))) s'" by (simp add: onFrame_def)
    from leaves_and_then [OF this] show ?thesis
      using leaves_updatePosition [of position True s]
      by (auto simp: requestFrame_def leaves_def split: if_splits)
  qed
  with onFrame_never_back [OF o] show ?thesis by simp
qed

lemma leaves_play:
  assumes "leaves (play s) s'"
  shows "currentTime s \<le> currentTime s' \<and> maxDuration s' = maxDuration s"
proof -
  from assms have "leaves (and_then (onFrame s) (\<lambda>s1. Ok (s1\<lparr>audios := fold playAt (findCurrentTracks s1) (audios s1)\<rparr>))) s'"
    by (simp add: play_def startSync_def)
  from leaves_and_then [OF this] show ?thesis
    using leaves_onFrame [of s] by (auto simp: leaves_def)
qed

lemma leaves_seek:
  assumes "leaves (and_then (updatePosition time False s) (\<lambda>s1. if w then play s1 else Ok s1)) s'"
  shows "time \<le> currentTime s' \<and> maxDuration s' = maxDuration s"
proof -
  from leaves_and_then [OF assms] show ?thesis
  proof
    assume "\<exists>e. updatePosition time False s = Throw e s'"
    then have "leaves (updatePosition time False s) s'" by (auto simp: leaves_def)
    from leaves_updatePosition [OF this] show ?thesis by simp
  next
    assume "\<exists>s1. updatePosition time False s = Ok s1 \<and> leaves (if w then play s1 else Ok s1) s'"
    then obtain s1 where u: "updatePosition time False s = Ok s1" and l: "leaves (if w then play s1 else Ok s1) s'"
      by blast
    from u have "leaves (updatePosition time False s) s1" by simp
    from leaves_updatePosition [OF this] have 1: "currentTime s1 = time" "maxDuration s1 = maxDuration s" by simp_all
    show ?thesis
    proof (cases w)
      case True
      with l leaves_play [of s1 s'] 1 show ?thesis by simp
    next
      case False
      with l 1 show ?thesis by simp
    qed
  qed
qed

















lemma kept_updatePosition:
  assumes "leaves (updatePosition time ac s) s'"
  shows "tracks s' = tracks s \<and> durations s' = durations s"
proof -
  from assms obtain e where "updatePosition time ac s = Ok s' \<or> updatePosition time ac s = Throw e s'"
    by (auto simp: leaves_def)
  from updatePosition_frame(1,2) [OF this] show ?thesis by simp
qed

lemma kept_onFrame:
  assumes "leaves (onFrame s) s'"
  shows "tracks s' = tracks s \<and> durations s' = durations s"
proof (cases "framePosition (tracks s) (enumerate 0 (audios s)) (currentTime s)")
  case None
  with assms show ?thesis by (simp add: onFrame_def)
next
  case (Some position)
  with assms have "leaves (and_then (if position > currentTime s then updatePosition position True s else Ok s)
          (\<lambda>s1. Ok (requestFrame s1))) s'" by (simp add: onFrame_def)
  from leaves_and_then [OF this] show ?thesis
    using kept_updatePosition [of position True s]
    by (auto simp: requestFrame_def leaves_def split: if_splits)
qed

lemma kept_play:
  assumes "leaves (play s) s'"
  shows "tracks s' = tracks s \<and> durations s' = durations s"
proof -
  from assms have "leaves (and_then (onFrame s) (\<lambda>s1. Ok (s1\<lparr>audios := fold playAt (findCurrentTracks s1) (audios s1)\<rparr>))) s'"
    by (simp add: play_def startSync_def)
  from leaves_and_then [OF this] show ?thesis
    using kept_onFrame [of s] by (auto simp: leaves_def)
qed

lemma kept_seek:
  assumes "leaves (and_then (updatePosition time False s) (\<lambda>s1. if w then play s1 else Ok s1)) s'"
  shows "tracks s' = tracks s \<and> durations s' = durations s"
proof -
  from leaves_and_then [OF assms] show ?thesis
  proof
    assume "\<exists>e. updatePosition time False s = Throw e s'"
    then have "leaves (updatePosition time False s) s'" by (auto simp: leaves_def)
    from kept_updatePosition [OF this] show ?thesis .
  next
    assume "\<exists>s1. updatePosition time False s = Ok s1 \<and> leaves (if w then play s1 else Ok s1) s'"
    then obtain s1 where u: "updatePosition time False s = Ok s1" and l: "leaves (if w then play s1 else Ok s1) s'"
      by blast
    from u have "leaves (updatePosition time False s) s1" by simp
    from kept_updatePosition [OF this] have 1: "tracks s1 = tracks s" "durations s1 = durations s" by simp_all
    show ?thesis
    proof (cases w)
      case True
      with l kept_play [of s1 s'] 1 show ?thesis by simp
    next
      case False
      with l 1 show ?thesis by simp
    qed
  qed
qed










text \<open>
  The two cases the amended claim leaves out do leave the model: in the source the
  recomputation adds an \<open>undefined\<close> or \<open>NaN\<close> duration, and \<open>maxDuration\<close> is \<open>NaN\<close> from
  then on.
\<close>

lemma replacement_before_load:
  "durations s = [] \<Longrightarrow> run (AddTrackLoaded index track a # xs) s = None"
  by (simp add: addTrack_then_def)

lemma replacement_without_duration:
  "loadedDuration track (initAudio track a) = None \<Longrightarrow> run (AddTrackLoaded index track a # xs) s = None"
  by (simp add: addTrack_then_def)

subsection \<open>After a mutation \<open>maxDuration\<close> is recomputed\<close>

lemma demo_settled: "settled demo 2"
  by (simp add: settled_def placeholderAt_def demo_defs webkitUrl_neq)

lemma demo_replaced:
  "\<exists>s. addTrack_then 1 trackB ((element 20)\<lparr>src := ''b.mp3''\<rparr>) demo = Ok s \<and> maxDuration s = 25"
  by (simp add: addTrack_then_def loadedDuration_def initDurations_def reduceMax_def maxStep_def and_then_def
      Let_def demo_defs webkitUrl_neq)

text \<open>
  C3 as amended.  Each of the four recomputations returns, and leaves \<open>maxDuration\<close> not
  negative and equal to the greater of two numbers: the duration \<open>d\<close> that the placeholder
  had before, and the maximum of \<open>startPosition + duration\<close> over the other tracks
  (\<open>recomputed\<close>).  At the load of a new object \<open>d\<close> is the duration of the placeholder's
  element; at a drag or a set that is accepted, and when the audio of a replaced track
  has loaded, \<open>d\<close> is the \<open>maxDuration\<close> of before.  So \<open>maxDuration\<close> is an upper bound of
  the end of every track, and it is the maximum over the tracks exactly when that
  maximum is not below \<open>d\<close>.  The load is that of a new object in which no track of the
  caller and no element carries the placeholder's URL; the other three start from a
  settled state, which is what the load leaves and each of them leaves again; the
  replaced track is not the placeholder, and its audio has a duration and not the
  placeholder's URL.  The part of \<open>addTrack\<close> that runs at once replaces the track and
  leaves \<open>maxDuration\<close> as it was, until the audio has loaded.
\<close>

theorem maxDuration_recomputed:
  "(length elements = Suc (length ts) \<and> (\<forall>t \<in> set ts. url t \<noteq> Some webkitUrl) \<and>
    (\<forall>a \<in> set elements. src a \<noteq> webkitUrl) \<longrightarrow>
      (\<exists>s. loaded (initAllAudios (tracks (create ts opts)) elements) (create ts opts) = Ok s \<and>
           tracks s = ts @ [PLACEHOLDER_TRACK] \<and>
           recomputed (duration (last elements)) s (length ts))) \<and>
   (settled s0 p \<and> index < length (tracks s0) \<and> draggable (tracks s0 ! index) \<and>
    acceptStart index (startPosition (tracks s0 ! index) + delta * maxDuration s0) s0 \<longrightarrow>
      (\<exists>s. onDrag index delta s0 = Ok s \<and>
           tracks s = (tracks s0)[index := (tracks s0 ! index)
                         \<lparr>startPosition := startPosition (tracks s0 ! index) + delta * maxDuration s0\<rparr>] \<and>
           recomputed (maxDuration s0) s p)) \<and>
   (settled s0 p \<and> index < length (tracks s0) \<and> draggable (tracks s0 ! index) \<and>
    acceptStart index val s0 \<longrightarrow>
      (\<exists>s. setTrackStartPosition index val s0 = Ok s \<and>
           tracks s = (tracks s0)[index := (tracks s0 ! index)\<lparr>startPosition := val\<rparr>] \<and>
           recomputed (maxDuration s0) s p)) \<and>
   (settled s0 p \<and> index < length (tracks s0) \<and> index \<noteq> p \<and> src audio \<noteq> webkitUrl \<and>
    loadedDuration track audio = Some d \<longrightarrow>
      (\<exists>s. addTrack_then index track audio s0 = Ok s \<and> tracks s = tracks s0 \<and>
           durations s = (durations s0)[index := d, p := maxDuration s] \<and>
           recomputed (maxDuration s0) s p)) \<and>
   maxDuration (addTrack track s0) = maxDuration s0"
proof (intro conjI impI)
  assume "length elements = Suc (length ts) \<and> (\<forall>t \<in> set ts. url t \<noteq> Some webkitUrl) \<and>
    (\<forall>a \<in> set elements. src a \<noteq> webkitUrl)"
  then have "length elements = Suc (length ts)" "\<forall>t \<in> set ts. url t \<noteq> Some webkitUrl"
    "\<forall>a \<in> set elements. src a \<noteq> webkitUrl" by simp_all
  from created_recomputed [OF this]
  show "\<exists>s. loaded (initAllAudios (tracks (create ts opts)) elements) (create ts opts) = Ok s \<and>
           tracks s = ts @ [PLACEHOLDER_TRACK] \<and> recomputed (duration (last elements)) s (length ts)" .
next
  let ?v = "startPosition (tracks s0 ! index) + delta * maxDuration s0"
  assume "settled s0 p \<and> index < length (tracks s0) \<and> draggable (tracks s0 ! index) \<and> acceptStart index ?v s0"
  then have st: "settled s0 p" and i: "index < length (tracks s0)" and dr: "draggable (tracks s0 ! index)"
    and ac: "acceptStart index ?v s0" by simp_all
  from st dr have "index \<noteq> p" by (auto simp: settled_def)
  from commit_recomputed [OF st this, of ?v] obtain s where
    "commitStartPosition index ?v s0 = Ok s"
    "tracks s = (tracks s0)[index := (tracks s0 ! index)\<lparr>startPosition := ?v\<rparr>]"
    "recomputed (maxDuration s0) s p" by blast
  moreover have "onDrag index delta s0 = commitStartPosition index ?v s0"
    using i dr ac by (simp add: onDrag_def Let_def)
  ultimately show "\<exists>s. onDrag index delta s0 = Ok s \<and>
           tracks s = (tracks s0)[index := (tracks s0 ! index)\<lparr>startPosition := ?v\<rparr>] \<and>
           recomputed (maxDuration s0) s p" by simp
next
  assume "settled s0 p \<and> index < length (tracks s0) \<and> draggable (tracks s0 ! index) \<and> acceptStart index val s0"
  then have st: "settled s0 p" and i: "index < length (tracks s0)" and dr: "draggable (tracks s0 ! index)"
    and ac: "acceptStart index val s0" by simp_all
  from st dr have "index \<noteq> p" by (auto simp: settled_def)
  from commit_recomputed [OF st this, of val] obtain s where
    "commitStartPosition index val s0 = Ok s"
    "tracks s = (tracks s0)[index := (tracks s0 ! index)\<lparr>startPosition := val\<rparr>]"
    "recomputed (maxDuration s0) s p" by blast
  moreover have "setTrackStartPosition index val s0 = commitStartPosition index val s0"
    using i dr ac by (simp add: setTrackStartPosition_def Let_def)
  ultimately show "\<exists>s. setTrackStartPosition index val s0 = Ok s \<and>
           tracks s = (tracks s0)[index := (tracks s0 ! index)\<lparr>startPosition := val\<rparr>] \<and>
           recomputed (maxDuration s0) s p" by simp
next
  assume "settled s0 p \<and> index < length (tracks s0) \<and> index \<noteq> p \<and> src audio \<noteq> webkitUrl \<and>
    loadedDuration track audio = Some d"
  then have "settled s0 p" "index < length (tracks s0)" "index \<noteq> p" "src audio \<noteq> webkitUrl"
    "loadedDuration track audio = Some d" by simp_all
  from addTrack_then_recomputed [OF this]
  show "\<exists>s. addTrack_then index track audio s0 = Ok s \<and> tracks s = tracks s0 \<and>
           durations s = (durations s0)[index := d, p := maxDuration s] \<and>
           recomputed (maxDuration s0) s p" by blast
next
  show "maxDuration (addTrack track s0) = maxDuration s0" by (rule addTrack_maxDuration)
qed

theorem maxDuration_recomputed_witness:
  "settled demo 2 \<and> draggable (tracks demo ! 0) \<and> acceptStart 0 (0 + 1/5 * 15) demo \<and> acceptStart 0 3 demo \<and>
   loadedDuration trackB ((element 20)\<lparr>src := ''b.mp3''\<rparr>) = Some 20 \<and>
   (\<exists>s. loaded (initAllAudios (tracks (create [trackA, trackB] demoOptions)) [element 10, element 10, element 0])
           (create [trackA, trackB] demoOptions) = Ok s \<and> recomputed 0 s 2 \<and> maxDuration s = 15) \<and>
   (\<exists>s. onDrag 0 (1/5) demo = Ok s \<and> startPosition (tracks s ! 0) = 3 \<and> recomputed 15 s 2) \<and>
   (\<exists>s. setTrackStartPosition 0 3 demo = Ok s \<and> startPosition (tracks s ! 0) = 3 \<and> recomputed 15 s 2) \<and>
   (\<exists>s. addTrack_then 1 trackB ((element 20)\<lparr>src := ''b.mp3''\<rparr>) demo = Ok s \<and>
        durations s = [10, 20, 25] \<and> recomputed 15 s 2 \<and> maxDuration s = 25)"
proof -
  let ?a = "(element 20)\<lparr>src := ''b.mp3''\<rparr>"
  let ?es = "[element 10, element 10, element 0]"
  have h: "draggable (tracks demo ! 0)" "acceptStart 0 (0 + 1/5 * 15) demo" "acceptStart 0 3 demo"
    "loadedDuration trackB ?a = Some 20" "src ?a \<noteq> webkitUrl"
    by (simp_all add: acceptStart_def loadedDuration_def demo_defs webkitUrl_neq)
  have v: "startPosition (tracks demo ! 0) = 0" "maxDuration demo = 15" "durations demo = [10, 10, 15]"
    "length (tracks demo) = 3"
    by (simp_all add: demo_def trackA_def)
  note T = maxDuration_recomputed [where ts = "[trackA, trackB]" and elements = ?es
      and opts = demoOptions and ?s0.0 = demo and p = 2 and index = 0 and delta = "1/5" and val = 3]
  note U = maxDuration_recomputed [where ?s0.0 = demo and p = 2 and index = 1 and track = trackB and audio = ?a
      and d = 20]
  have hl: "length ?es = Suc (length [trackA, trackB]) \<and> (\<forall>t \<in> set [trackA, trackB]. url t \<noteq> Some webkitUrl) \<and>
      (\<forall>a \<in> set ?es. src a \<noteq> webkitUrl)"
    by (simp add: trackA_def trackB_def element_def webkitUrl_def)
  from mp [OF T [THEN conjunct1] hl] obtain s1 where
    l: "loaded (initAllAudios (tracks (create [trackA, trackB] demoOptions)) ?es) (create [trackA, trackB] demoOptions) = Ok s1"
    and r: "recomputed (duration (last ?es)) s1 (length [trackA, trackB])" by blast
  have e: "duration (last ?es) = 0" "length [trackA, trackB] = 2" by (simp_all add: element_def)
  from r have r1: "recomputed 0 s1 2" unfolding e .
  from l demo_loaded have "s1 = demo" by simp
  then have "maxDuration s1 = 15" by (simp add: demo_def)
  with l r1 have 1: "\<exists>s. loaded (initAllAudios (tracks (create [trackA, trackB] demoOptions)) ?es)
           (create [trackA, trackB] demoOptions) = Ok s \<and> recomputed 0 s 2 \<and> maxDuration s = 15" by blast
  have hd: "settled demo 2 \<and> 0 < length (tracks demo) \<and> draggable (tracks demo ! 0) \<and>
      acceptStart 0 (startPosition (tracks demo ! 0) + 1/5 * maxDuration demo) demo"
    using demo_settled h(1,2) v by simp
  from mp [OF T [THEN conjunct2, THEN conjunct1] hd] obtain s2 where
    o: "onDrag 0 (1/5) demo = Ok s2"
    and t2: "tracks s2 = (tracks demo)[0 := (tracks demo ! 0)\<lparr>startPosition := startPosition (tracks demo ! 0) + 1/5 * maxDuration demo\<rparr>]"
    and r2: "recomputed (maxDuration demo) s2 2" by blast
  from t2 v have "startPosition (tracks s2 ! 0) = 3" by simp
  with o r2 v(2) have 2: "\<exists>s. onDrag 0 (1/5) demo = Ok s \<and> startPosition (tracks s ! 0) = 3 \<and> recomputed 15 s 2"
    by auto
  have hs: "settled demo 2 \<and> 0 < length (tracks demo) \<and> draggable (tracks demo ! 0) \<and> acceptStart 0 3 demo"
    using demo_settled h(1,3) v by simp
  from mp [OF T [THEN conjunct2, THEN conjunct2, THEN conjunct1] hs] obtain s3 where
    o3: "setTrackStartPosition 0 3 demo = Ok s3"
    and t3: "tracks s3 = (tracks demo)[0 := (tracks demo ! 0)\<lparr>startPosition := 3\<rparr>]"
    and r3: "recomputed (maxDuration demo) s3 2" by blast
  from t3 v have "startPosition (tracks s3 ! 0) = 3" by simp
  with o3 r3 v(2) have 3: "\<exists>s. setTrackStartPosition 0 3 demo = Ok s \<and> startPosition (tracks s ! 0) = 3 \<and> recomputed 15 s 2"
    by auto
  have ha: "settled demo 2 \<and> 1 < length (tracks demo) \<and> (1::nat) \<noteq> 2 \<and> src ?a \<noteq> webkitUrl \<and>
      loadedDuration trackB ?a = Some 20"
    using demo_settled h(4,5) v by simp
  from mp [OF U [THEN conjunct2, THEN conjunct2, THEN conjunct2, THEN conjunct1] ha] obtain s4 where
    o4: "addTrack_then 1 trackB ?a demo = Ok s4"
    and d4: "durations s4 = (durations demo)[1 := 20, 2 := maxDuration s4]"
    and r4: "recomputed (maxDuration demo) s4 2" by blast
  from demo_replaced o4 have m4: "maxDuration s4 = 25" by auto
  with d4 v(3) have "durations s4 = [10, 20, 25]" by simp
  with o4 r4 m4 v(2) have 4: "\<exists>s. addTrack_then 1 trackB ?a demo = Ok s \<and>
        durations s = [10, 20, 25] \<and> recomputed 15 s 2 \<and> maxDuration s = 25" by auto
  from demo_settled h(1-4) 1 2 3 4 show ?thesis by (intro conjI)
qed

text \<open>
  C3 fails on the code in two ways.  After the load of one track of ten seconds that
  starts at \<open>5\<close>, \<open>setTrackStartPosition(0, 2)\<close> leaves \<open>maxDuration\<close> at \<open>15\<close> while the
  track ends at \<open>12\<close>: the placeholder keeps the old \<open>maxDuration\<close> as its duration.  And
  \<open>addTrack\<close> with a track that starts at \<open>100\<close> replaces the track at once, while
  \<open>maxDuration\<close> stays \<open>15\<close> with a track that ends at \<open>110\<close>, until the audio has loaded.
\<close>

theorem maxDuration_above_the_tracks:
  "map_option maxDuration (run [soloLoad, SetTrackStartPosition 0 2] (create [lateA] demoOptions)) = Some 15 \<and>
   map_option callerTracksMax (run [soloLoad, SetTrackStartPosition 0 2] (create [lateA] demoOptions)) = Some 12 \<and>
   map_option maxDuration (run [demoLoad, AddTrack (trackB\<lparr>startPosition := 100\<rparr>)]
      (create [trackA, trackB] demoOptions)) = Some 15 \<and>
   map_option callerTracksMax (run [demoLoad, AddTrack (trackB\<lparr>startPosition := 100\<rparr>)]
      (create [trackA, trackB] demoOptions)) = Some 110"
proof -
  have "maxDuration solo = 15" by (simp add: solo_def)
  moreover have "callerTracksMax solo = 12"
    by (simp add: callerTracksMax_def maxOverTracks_def endsOfOthers_def solo_def trackA_def)
  moreover have "maxDuration (addTrack (trackB\<lparr>startPosition := 100\<rparr>) demo) = 15"
    by (simp add: addTrack_def demo_defs)
  moreover have "callerTracksMax (addTrack (trackB\<lparr>startPosition := 100\<rparr>) demo) = 110"
    by (simp add: callerTracksMax_def maxOverTracks_def endsOfOthers_def addTrack_def demo_defs)
  ultimately show ?thesis unfolding solo_run run_demoLoad by simp
qed

subsection \<open>A settled state stays settled between two recomputations\<close>

lemma src_fold_playAt: "map src (fold playAt is as) = map src as"
proof (induction "is" arbitrary: as)
  case Nil
  then show ?case by simp
next
  case (Cons i "is")
  have "map src (playAt i as) = map src as"
    by (simp add: playAt_def play_audio_def map_update list_update_same_conv)
  with Cons.IH [of "playAt i as"] show ?case by simp
qed

lemma src_updatePosition:
  assumes "leaves (updatePosition time ac s) s'"
  shows "map src (audios s') = map src (audios s)"
proof -
  from assms obtain e where "updatePosition time ac s = Ok s' \<or> updatePosition time ac s = Throw e s'"
    by (auto simp: leaves_def)
  from updatePosition_frame(9) [OF this] show ?thesis .
qed

lemma src_onFrame:
  assumes "leaves (onFrame s) s'"
  shows "map src (audios s') = map src (audios s)"
proof (cases "framePosition (tracks s) (enumerate 0 (audios s)) (currentTime s)")
  case None
  with assms show ?thesis by (simp add: onFrame_def)
next
  case (Some position)
  with assms have "leaves (and_then (if position > currentTime s then updatePosition position True s else Ok s)
          (\<lambda>s1. Ok (requestFrame s1))) s'" by (simp add: onFrame_def)
  from leaves_and_then [OF this] show ?thesis
    using src_updatePosition [of position True s]
    by (auto simp: requestFrame_def leaves_def split: if_splits)
qed

lemma src_play:
  assumes "leaves (play s) s'"
  shows "map src (audios s') = map src (audios s)"
proof -
  from assms have "leaves (and_then (onFrame s) (\<lambda>s1. Ok (s1\<lparr>audios := fold playAt (findCurrentTracks s1) (audios s1)\<rparr>))) s'"
    by (simp add: play_def startSync_def)
  from leaves_and_then [OF this] show ?thesis
    using src_onFrame [of s] by (auto simp: leaves_def src_fold_playAt)
qed

lemma src_seek:
  assumes "leaves (and_then (updatePosition time False s) (\<lambda>s1. if w then play s1 else Ok s1)) s'"
  shows "map src (audios s') = map src (audios s)"
proof -
  from leaves_and_then [OF assms] show ?thesis
  proof
    assume "\<exists>e. updatePosition time False s = Throw e s'"
    then have "leaves (updatePosition time False s) s'" by (auto simp: leaves_def)
    from src_updatePosition [OF this] show ?thesis .
  next
    assume "\<exists>s1. updatePosition time False s = Ok s1 \<and> leaves (if w then play s1 else Ok s1) s'"
    then obtain s1 where u: "updatePosition time False s = Ok s1" and l: "leaves (if w then play s1 else Ok s1) s'"
      by blast
    from u have "leaves (updatePosition time False s) s1" by simp
    from src_updatePosition [OF this] have 1: "map src (audios s1) = map src (audios s)" .
    show ?thesis
    proof (cases w)
      case True
      with l src_play [of s1 s'] 1 show ?thesis by simp
    next
      case False
      with l 1 show ?thesis by simp
    qed
  qed
qed

lemma between_kept:
  assumes b: "between x" and l: "leaves (exec x s) s'"
  shows "tracks s' = tracks s \<and> durations s' = durations s \<and> maxDuration s' = maxDuration s \<and>
         map src (audios s') = map src (audios s)"
proof (cases x)
  case Play
  with l kept_play [of s s'] leaves_play [of s s'] src_play [of s s'] show ?thesis by simp
next
  case Pause
  with l show ?thesis by (simp add: pause_def pause_audio_def comp_def)
next
  case (SetTime time)
  with l have "leaves (and_then (updatePosition time False s) (\<lambda>s1. if isPlaying s then play s1 else Ok s1)) s'"
    by (simp add: setTime_def Let_def)
  from kept_seek [OF this] leaves_seek [OF this] src_seek [OF this] show ?thesis by simp
next
  case (SeekTo position)
  with l have "leaves (and_then (updatePosition (position * maxDuration s) False s)
      (\<lambda>s1. if isPlaying s then play s1 else Ok s1)) s'"
    by (simp add: seekTo_def Let_def)
  from kept_seek [OF this] leaves_seek [OF this] src_seek [OF this] show ?thesis by simp
next
  case (Zoom z)
  with l show ?thesis by (simp add: zoom_def)
next
  case (SetAudioRate rate)
  with l show ?thesis by (auto simp: setAudioRate_def comp_def split: if_splits)
next
  case (SetTrackVolume index volume)
  with l show ?thesis by (simp add: setTrackVolume_def)
next
  case (Frame handle)
  let ?s = "s\<lparr>rafQueue := removeAll handle (rafQueue s)\<rparr>"
  show ?thesis
  proof (cases "handle \<in> set (rafQueue s)")
    case True
    with Frame l have "leaves (onFrame ?s) s'" by (simp add: runFrame_def)
    from kept_onFrame [OF this] leaves_onFrame [OF this] src_onFrame [OF this] show ?thesis by simp
  next
    case False
    with Frame l show ?thesis by (simp add: runFrame_def)
  qed
qed (use b in simp_all)

text \<open>
  So every operation that is not a recomputation keeps a settled state settled, but
  \<open>destroy\<close> and an \<open>addTrack\<close> that takes the placeholder's id (\<open>addTrack_settled\<close>).
\<close>

lemma between_settled:
  assumes st: "settled s p" and b: "between x" and l: "leaves (exec x s) s'"
  shows "settled s' p \<and> maxDuration s' = maxDuration s"
proof -
  from between_kept [OF b l] have k: "tracks s' = tracks s" "durations s' = durations s"
    "maxDuration s' = maxDuration s" "map src (audios s') = map src (audios s)" by simp_all
  from k(4) have "length (audios s') = length (audios s)" by (rule map_eq_imp_length_eq)
  moreover have "findIndex (\<lambda>a. src a = webkitUrl) (audios s') = findIndex (\<lambda>a. src a = webkitUrl) (audios s)"
    using findIndex_src [OF k(4)] .
  ultimately show ?thesis using st k(1-3) by (simp add: settled_def placeholderAt_def)
qed

subsection \<open>When \<open>maxDuration\<close> never decreases\<close>






end
